theory Spec2Isabelle
  imports Main "HOL-Library.Product_Lexorder" "HOL-Library.List_Lexorder" "HOL-Library.Char_ord"
begin

section \<open>Cells, errors and frames\<close>

text \<open>
  The batch-location module (\<^verbatim>\<open>backend/batch_api_working.py\<close>) works on pandas frames.
  A numeric cell is the value left by \<^verbatim>\<open>pd.to_numeric(..., errors="coerce")\<close>: a number, or
  NaN, written \<open>None\<close>. An instant is a \<^verbatim>\<open>datetime64[ns]\<close> value: nanoseconds since the
  epoch, or NaT, written \<open>None\<close>. A text cell is a string or a missing value.
  Identifiers and ordinals are taken to be integers.
\<close>

type_synonym num = "int option"
type_synonym instant = "int option"
type_synonym text_cell = "string option"

datatype pyerr = IndexError | ValueError | KeyError | OverflowError

section \<open>Step status and timestamps\<close>

text \<open>
  \<^verbatim>\<open>_combine_dt\<close> calls two parsers of pandas, \<^verbatim>\<open>pd.to_datetime(..., errors="coerce")\<close> and
  \<^verbatim>\<open>pd.to_timedelta(..., errors="coerce")\<close>. They are not code of the repository and are
  parameters of the model: each returns \<open>None\<close> (NaT) where it cannot parse.
  The regular expression \<^verbatim>\<open>[^\d:]\<close> is read over ASCII digits.
  The sum \<^verbatim>\<open>d + t\<close> is an addition of 64-bit integers in which the least value stands for
  NaT: where the date or the time has no value the sum has none, and where the sum of two
  values leaves the range the addition raises \<^verbatim>\<open>OverflowError\<close>.
\<close>

definition is_digit :: "char \<Rightarrow> bool" where
  "is_digit c = (c \<in> set ''0123456789'')"

definition strip_time :: "string \<Rightarrow> string" where
  "strip_time s = filter (\<lambda>c. is_digit c \<or> c = CHR '':'') s"

definition in_int64 :: "int \<Rightarrow> bool" where
  "in_int64 v = (- (2 ^ 63) < v \<and> v < 2 ^ 63)"

definition combine_dt ::
  "(string \<Rightarrow> instant) \<Rightarrow> (string \<Rightarrow> int option) \<Rightarrow> text_cell \<Rightarrow> text_cell
     \<Rightarrow> pyerr + instant" where
  "combine_dt to_datetime to_timedelta date_like time_like =
     (let d = (case date_like of None \<Rightarrow> None | Some x \<Rightarrow> to_datetime x);
          t = to_timedelta (strip_time (case time_like of None \<Rightarrow> ''00:00:00'' | Some s \<Rightarrow> s))
      in case d of
           None \<Rightarrow> Inr None
         | Some dv \<Rightarrow>
             (case t of
                None \<Rightarrow> Inr None
              | Some tv \<Rightarrow> if in_int64 (dv + tv) then Inr (Some (dv + tv)) else Inl OverflowError))"

text \<open>
  The three assignments to \<^verbatim>\<open>rs["status"]\<close>, in the order of the source; \<open>None\<close> is the
  initial \<^verbatim>\<open>pd.NA\<close>.
\<close>

definition status_of :: "instant \<Rightarrow> instant \<Rightarrow> text_cell" where
  "status_of started finished =
     (let s0 = None;
          s1 = (if finished \<noteq> None then Some ''Completed'' else s0);
          s2 = (if started \<noteq> None \<and> finished = None then Some ''In Progress'' else s1);
          s3 = (if started = None \<and> finished = None then Some ''Not Started'' else s2)
      in s3)"

text \<open>\<^verbatim>\<open>rs[["finished_at", "started_at"]].max(axis=1)\<close>: the later of the two, NaT skipped.\<close>

definition row_max :: "instant \<Rightarrow> instant \<Rightarrow> instant" where
  "row_max finished started =
     (case finished of
        None \<Rightarrow> started
      | Some f \<Rightarrow> (case started of None \<Rightarrow> Some f | Some s \<Rightarrow> Some (max f s)))"

text \<open>
  A row of \<^verbatim>\<open>run_step\<close> as read with the desired columns, and the same row once the
  derived columns are added. A column the file does not carry is absent from
  \<^verbatim>\<open>rs.columns\<close>; the list of carried column names travels with the rows.
\<close>

record run_step_row =
  RunId :: num
  ProcessModuleId :: num
  Sequence :: num
  StartDate :: text_cell
  StartTime :: text_cell
  FinishDate :: text_cell
  FinishTime :: text_cell
  batch_index :: num
  fragment_index :: num

record rs_row = run_step_row +
  started_at :: instant
  finished_at :: instant
  status :: text_cell
  updated_at :: instant

definition coalesce_by_name :: "string list \<Rightarrow> string \<Rightarrow> text_cell \<Rightarrow> text_cell" where
  "coalesce_by_name columns name v = (if name \<in> set columns then v else None)"

definition with_status :: "run_step_row \<Rightarrow> instant \<Rightarrow> instant \<Rightarrow> rs_row" where
  \<comment> \<open>The row with the four derived columns, given its two instants.\<close>
  "with_status r sa fa =
     run_step_row.extend r
       \<lparr>started_at = sa, finished_at = fa, status = status_of sa fa,
        updated_at = row_max fa sa\<rparr>"

definition add_status ::
  "(string \<Rightarrow> instant) \<Rightarrow> (string \<Rightarrow> int option) \<Rightarrow> string list \<Rightarrow> run_step_row
     \<Rightarrow> pyerr + rs_row" where
  "add_status to_datetime to_timedelta columns r =
     (if ''StartDate'' \<in> set columns \<and> ''FinishDate'' \<in> set columns
      then
        (case combine_dt to_datetime to_timedelta
                (coalesce_by_name columns ''StartDate'' (StartDate r))
                (coalesce_by_name columns ''StartTime'' (StartTime r)) of
           Inl e \<Rightarrow> Inl e
         | Inr sa \<Rightarrow>
             (case combine_dt to_datetime to_timedelta
                     (coalesce_by_name columns ''FinishDate'' (FinishDate r))
                     (coalesce_by_name columns ''FinishTime'' (FinishTime r)) of
                Inl e \<Rightarrow> Inl e
              | Inr fa \<Rightarrow> Inr (with_status r sa fa)))
      else Inr (with_status r None None))"

section \<open>Current step of a run\<close>

text \<open>
  A group \<open>g\<close> is a list of rows with their index labels. \<^verbatim>\<open>Series.idxmax\<close> skips missing
  values and returns the label of the first row that holds the maximum; it raises when
  every value is missing. \<^verbatim>\<open>g.loc[[l]]\<close> keeps the rows labelled \<open>l\<close>, and
  \<^verbatim>\<open>g.iloc[[-1]]\<close> the last row, raising on an empty frame.
\<close>

definition idxmax :: "('r \<Rightarrow> int option) \<Rightarrow> (nat \<times> 'r) list \<Rightarrow> nat option" where
  "idxmax col g =
     (let vals = List.map_filter (\<lambda>p. col (snd p)) g
      in if vals = [] then None
         else map_option fst (find (\<lambda>p. col (snd p) = Some (Max (set vals))) g))"

definition loc :: "(nat \<times> 'r) list \<Rightarrow> nat \<Rightarrow> (nat \<times> 'r) list" where
  "loc g l = filter (\<lambda>p. fst p = l) g"

definition iloc_last :: "'a list \<Rightarrow> pyerr + 'a list" where
  "iloc_last g = (if g = [] then Inl IndexError else Inr [last g])"

text \<open>
  \<^verbatim>\<open>sort_values(sk, kind="stable")\<close>: ascending and stable, the key columns compared in
  order, a missing value after every number (\<^verbatim>\<open>na_position="last"\<close>, the default).
\<close>

definition na_last :: "num \<Rightarrow> bool \<times> int" where
  "na_last v = (case v of None \<Rightarrow> (True, 0) | Some n \<Rightarrow> (False, n))"

definition ordinal :: "string \<Rightarrow> 'a rs_row_scheme \<Rightarrow> num" where
  "ordinal c r = (if c = ''__batch_index'' then batch_index r else fragment_index r)"

definition sort_key_of :: "string list \<Rightarrow> nat \<times> 'a rs_row_scheme \<Rightarrow> (bool \<times> int) list" where
  "sort_key_of sk p = map (\<lambda>c. na_last (ordinal c (snd p))) sk"

definition sort_values ::
  "string list \<Rightarrow> (nat \<times> 'a rs_row_scheme) list \<Rightarrow> (nat \<times> 'a rs_row_scheme) list" where
  "sort_values sk g = sort_key (sort_key_of sk) g"

definition ordinal_columns :: "string list \<Rightarrow> string list" where
  \<comment> \<open>The list \<^verbatim>\<open>sk\<close> of the source: the ordinal columns the frame carries.\<close>
  "ordinal_columns columns =
     filter (\<lambda>c. c \<in> set columns) [''__batch_index'', ''__fragment_index'']"

definition pick_current ::
  "string list \<Rightarrow> (nat \<times> rs_row) list \<Rightarrow> pyerr + (nat \<times> rs_row) list" where
  "pick_current columns g =
     (if list_ex (\<lambda>p. updated_at (snd p) \<noteq> None) g
      then (case idxmax updated_at g of None \<Rightarrow> Inl ValueError | Some l \<Rightarrow> Inr (loc g l))
      else
        let sk = ordinal_columns columns
        in if sk \<noteq> [] then iloc_last (sort_values sk g)
           else if ''Sequence'' \<in> set columns \<and> list_ex (\<lambda>p. Sequence (snd p) \<noteq> None) g
           then (case idxmax Sequence g of None \<Rightarrow> Inl ValueError | Some l \<Rightarrow> Inr (loc g l))
           else iloc_last g)"

definition step :: "int \<Rightarrow> num \<Rightarrow> num \<Rightarrow> num \<Rightarrow> instant \<Rightarrow> instant \<Rightarrow> rs_row" where
  \<comment> \<open>A row of run \<open>run\<close> with the given Sequence, ordinals and instants, for the examples.\<close>
  "step run sq b f sa fa =
     \<lparr>RunId = Some run, ProcessModuleId = None, Sequence = sq,
      StartDate = None, StartTime = None, FinishDate = None, FinishTime = None,
      batch_index = b, fragment_index = f,
      started_at = sa, finished_at = fa, status = status_of sa fa,
      updated_at = row_max fa sa\<rparr>"

section \<open>Grouping by run\<close>

text \<open>
  \<^verbatim>\<open>rs.groupby("RunId", as_index=False, group_keys=False).apply(_pick_current)\<close>: one
  group per distinct RunId, the groups in ascending order of the key, a row without RunId in
  no group; each group keeps its rows in the order of the frame, with their labels (the row
  positions of \<^verbatim>\<open>rs\<close>). The results are concatenated and
  \<^verbatim>\<open>reset_index(drop=True)\<close> forgets the labels. An exception of one call ends the
  whole computation.
\<close>

definition group_keys :: "'a run_step_row_scheme list \<Rightarrow> int list" where
  "group_keys rs = sort (remdups (List.map_filter RunId rs))"

definition groupby_RunId :: "rs_row list \<Rightarrow> (nat \<times> rs_row) list list" where
  "groupby_RunId rs =
     map (\<lambda>k. filter (\<lambda>p. RunId (snd p) = Some k) (enumerate 0 rs)) (group_keys rs)"

fun apply_concat :: "('g \<Rightarrow> pyerr + 'a list) \<Rightarrow> 'g list \<Rightarrow> pyerr + 'a list" where
  "apply_concat f [] = Inr []"
| "apply_concat f (g # gs) =
     (case f g of
        Inl e \<Rightarrow> Inl e
      | Inr xs \<Rightarrow> (case apply_concat f gs of Inl e \<Rightarrow> Inl e | Inr ys \<Rightarrow> Inr (xs @ ys)))"

definition current_step :: "string list \<Rightarrow> rs_row list \<Rightarrow> pyerr + rs_row list" where
  "current_step columns rs =
     (case apply_concat (pick_current columns) (groupby_RunId rs) of
        Inl e \<Rightarrow> Inl e
      | Inr ps \<Rightarrow> Inr (map snd ps))"

section \<open>The lookup tables and their representatives\<close>

text \<open>
  The rows of the six other tables, after the renamings of the source
  (\<^verbatim>\<open>Id\<close> to \<^verbatim>\<open>RunId\<close>, \<^verbatim>\<open>ProcessId\<close>, \<^verbatim>\<open>CategoryId\<close>, \<^verbatim>\<open>ProcessTypeId\<close>;
  \<^verbatim>\<open>Name\<close> to \<^verbatim>\<open>ProcessName\<close>, \<^verbatim>\<open>CategoryName\<close>, \<^verbatim>\<open>ProcessTypeName\<close>,
  \<^verbatim>\<open>RunName\<close>). A field name that two tables share carries the table's prefix here.
\<close>

record pm_row =
  Id :: num
  ProcessId :: num
  ModuleId :: num

record process_row =
  p_ProcessId :: num
  ProcessName :: text_cell
  p_CategoryId :: num

record category_row =
  c_CategoryId :: num
  CategoryName :: text_cell

record ptc_row =
  TypeId :: num
  tc_CategoryId :: num

record ptype_row =
  ProcessTypeId :: num
  ProcessTypeName :: text_cell

record run_row =
  run_RunId :: num
  Label :: text_cell
  RunName :: text_cell
  Motivation :: text_cell
  Status :: text_cell
  RunTypeId :: num

text \<open>
  \<^verbatim>\<open>drop_duplicates(subset=[key], keep="first")\<close>: of the rows that share a key the first
  stays, the order of the frame is kept; two missing keys count as equal.
\<close>

fun drop_duplicates :: "('a \<Rightarrow> 'k) \<Rightarrow> 'a list \<Rightarrow> 'a list" where
  "drop_duplicates key [] = []"
| "drop_duplicates key (x # xs) = x # drop_duplicates key (filter (\<lambda>y. key y \<noteq> key x) xs)"

text \<open>
  The representative of a process module: \<^verbatim>\<open>_score\<close> is 1 where ProcessId is present;
  the rows are sorted stably by Id ascending (missing last) and \<^verbatim>\<open>_score\<close> descending,
  and the first row of each Id is kept.
\<close>

definition score :: "pm_row \<Rightarrow> int" where
  "score r = (if ProcessId r \<noteq> None then 1 else 0)"

definition pm_sort_key :: "pm_row \<Rightarrow> (bool \<times> int) \<times> int" where
  "pm_sort_key r = (na_last (Id r), - score r)"

definition pm_by_module :: "pm_row list \<Rightarrow> pm_row list" where
  "pm_by_module pm_raw = drop_duplicates Id (sort_key pm_sort_key pm_raw)"

section \<open>Joins\<close>

text \<open>
  \<^verbatim>\<open>left.merge(right, how="left", ...)\<close>: the rows of the left frame in their order, each
  once per matching row of the right frame (in the right frame's order), or once with the
  right columns missing when nothing matches. pandas matches a missing key with a missing
  key.
\<close>

definition merge_left :: "('a \<Rightarrow> 'k) \<Rightarrow> ('b \<Rightarrow> 'k) \<Rightarrow> 'a list \<Rightarrow> 'b list \<Rightarrow> ('a \<times> 'b option) list" where
  "merge_left left_on right_on left right =
     concat (map (\<lambda>l. case filter (\<lambda>r. right_on r = left_on l) right of
                         [] \<Rightarrow> [(l, None)]
                       | ms \<Rightarrow> map (\<lambda>r. (l, Some r)) ms) left)"

definition cell :: "('b \<Rightarrow> 'v option) \<Rightarrow> 'b option \<Rightarrow> 'v option" where
  \<comment> \<open>A column of the right frame in a merged row: missing where nothing matched.\<close>
  "cell f r = (case r of None \<Rightarrow> None | Some x \<Rightarrow> f x)"

text \<open>
  The frames of one invocation as the reader returns them. Every frame comes with the list
  of the column names it carries, as named in the file; a field of a row is read only
  where its column is carried. The run-step file is read twice: with the two basic columns
  (\<^verbatim>\<open>run_step\<close>) and with the desired columns (\<^verbatim>\<open>rs\<close>); in \<^verbatim>\<open>rs\<close> and in the
  process modules the numeric columns are coerced. Frames are taken without repeated
  column names and with numbers in their key columns. Whether pandas refuses the types of
  the two key columns of a merge (\<^verbatim>\<open>ValueError\<close>) is an input, given per merge by the
  name of the variable the merge is assigned to.
\<close>

record tables =
  run_columns :: "string list"
  run :: "run_row list"
  run_step_columns :: "string list"
  run_step :: "run_step_row list"
  rs_columns :: "string list"
  rs :: "run_step_row list"
  process_module_columns :: "string list"
  process_module :: "pm_row list"
  process_columns :: "string list"
  process_tbl :: "process_row list"
  process_category_columns :: "string list"
  process_category :: "category_row list"
  process_type_category_columns :: "string list"
  process_type_category :: "ptc_row list"
  process_type_columns :: "string list"
  process_type :: "ptype_row list"
  key_clash :: "string \<Rightarrow> bool"

text \<open>
  An exception ends the invocation: \<open>and_then\<close> runs the next statement only on a
  value. \<open>require\<close> is the \<^verbatim>\<open>KeyError\<close> of pandas for a column label that the frame
  does not carry. \<open>collect\<close> applies a function to every row and stops at the first
  exception.
\<close>

definition and_then :: "'e + 'a \<Rightarrow> ('a \<Rightarrow> 'e + 'b) \<Rightarrow> 'e + 'b" where
  "and_then m f = (case m of Inl e \<Rightarrow> Inl e | Inr x \<Rightarrow> f x)"

definition require :: "string \<Rightarrow> string list \<Rightarrow> pyerr + unit" where
  "require name columns = (if name \<in> set columns then Inr () else Inl KeyError)"

fun collect :: "('a \<Rightarrow> 'e + 'b) \<Rightarrow> 'a list \<Rightarrow> 'e + 'b list" where
  "collect f [] = Inr []"
| "collect f (x # xs) =
     (case f x of
        Inl e \<Rightarrow> Inl e
      | Inr y \<Rightarrow> (case collect f xs of Inl e \<Rightarrow> Inl e | Inr ys \<Rightarrow> Inr (y # ys)))"

definition carried :: "string list \<Rightarrow> string \<Rightarrow> 'v option \<Rightarrow> 'v option" where
  "carried columns name v = (if name \<in> set columns then v else None)"

text \<open>
  A merge raises \<^verbatim>\<open>KeyError\<close> when a key column is not carried by its frame, then
  \<^verbatim>\<open>ValueError\<close> when pandas refuses the types of the keys, and joins otherwise.
\<close>

definition merge ::
  "bool \<Rightarrow> bool \<Rightarrow> bool \<Rightarrow> ('a \<Rightarrow> 'k) \<Rightarrow> ('b \<Rightarrow> 'k) \<Rightarrow> 'a list \<Rightarrow> 'b list
     \<Rightarrow> pyerr + ('a \<times> 'b option) list" where
  "merge left_has_key right_has_key clash left_on right_on left right =
     (if \<not> left_has_key \<or> \<not> right_has_key then Inl KeyError
      else if clash then Inl ValueError
      else Inr (merge_left left_on right_on left right))"

text \<open>
  Step 2 of the source (lines 206 to 244). \<^verbatim>\<open>drop_duplicates(subset=[key])\<close> raises
  \<^verbatim>\<open>KeyError\<close> when the key column, \<^verbatim>\<open>Id\<close> in the file, is not carried; so do
  \<^verbatim>\<open>pm_raw["ProcessId"]\<close> and the sort of the process modules by \<^verbatim>\<open>Id\<close>.
\<close>

definition load_checks :: "tables \<Rightarrow> pyerr + unit" where
  "load_checks T =
     and_then (require ''Id'' (run_columns T)) (\<lambda>u.
     and_then (require ''Id'' (process_columns T)) (\<lambda>u.
     and_then (require ''Id'' (process_category_columns T)) (\<lambda>u.
     and_then (require ''Id'' (process_type_columns T)) (\<lambda>u.
     and_then (require ''ProcessId'' (process_module_columns T)) (\<lambda>u.
     require ''Id'' (process_module_columns T))))))"

definition run_dedup :: "tables \<Rightarrow> run_row list" where
  "run_dedup T = drop_duplicates run_RunId (run T)"

definition run_step_dedup :: "tables \<Rightarrow> run_step_row list" where
  \<comment> \<open>\<^verbatim>\<open>drop_duplicates()\<close> on the carried columns of the basic read\<close>
  "run_step_dedup T =
     drop_duplicates
       (\<lambda>r. (carried (run_step_columns T) ''RunId'' (RunId r),
             carried (run_step_columns T) ''ProcessModuleId'' (ProcessModuleId r)))
       (run_step T)"

text \<open>
  The four merges that follow the merge with the process modules, the same in both join
  passes: process, category, the bridge from category to type, and type. \<open>v\<close> is the
  letter of the pass, so that the merges are \<^verbatim>\<open>j2\<close> to \<^verbatim>\<open>j5\<close> and \<^verbatim>\<open>c2\<close> to \<^verbatim>\<open>c5\<close>.
  \<open>names_rows\<close> is what they give when none raises.
\<close>

type_synonym 's named_row =
  "((('s \<times> pm_row option) \<times> process_row option) \<times> category_row option) \<times> ptc_row option"

definition names_rows ::
  "tables \<Rightarrow> ('s \<times> pm_row option) list \<Rightarrow> ('s named_row \<times> ptype_row option) list" where
  "names_rows T x1 =
     (let x2 = merge_left (\<lambda>x. cell ProcessId (snd x)) p_ProcessId x1
                 (drop_duplicates p_ProcessId (process_tbl T));
          x3 = merge_left (\<lambda>x. cell p_CategoryId (snd x)) c_CategoryId x2
                 (drop_duplicates c_CategoryId (process_category T));
          x4 = merge_left (\<lambda>x. cell p_CategoryId (snd (fst x))) tc_CategoryId x3
                 (drop_duplicates (\<lambda>r. r) (process_type_category T))
      in merge_left (\<lambda>x. cell TypeId (snd x)) ProcessTypeId x4
           (drop_duplicates ProcessTypeId (process_type T)))"

definition names_chain ::
  "tables \<Rightarrow> string \<Rightarrow> ('s \<times> pm_row option) list
     \<Rightarrow> pyerr + ('s named_row \<times> ptype_row option) list" where
  "names_chain T v x1 =
     and_then (merge True True (key_clash T (v @ ''2''))
                 (\<lambda>x. cell ProcessId (snd x)) p_ProcessId x1
                 (drop_duplicates p_ProcessId (process_tbl T))) (\<lambda>x2.
     and_then (merge (''CategoryId'' \<in> set (process_columns T)) True (key_clash T (v @ ''3''))
                 (\<lambda>x. cell p_CategoryId (snd x)) c_CategoryId x2
                 (drop_duplicates c_CategoryId (process_category T))) (\<lambda>x3.
     and_then (merge True (''CategoryId'' \<in> set (process_type_category_columns T))
                 (key_clash T (v @ ''4''))
                 (\<lambda>x. cell p_CategoryId (snd (fst x))) tc_CategoryId x3
                 (drop_duplicates (\<lambda>r. r) (process_type_category T))) (\<lambda>x4.
     merge (''TypeId'' \<in> set (process_type_category_columns T)) True (key_clash T (v @ ''5''))
       (\<lambda>x. cell TypeId (snd x)) ProcessTypeId x4
       (drop_duplicates ProcessTypeId (process_type T)))))"

text \<open>
  The first join pass (lines 248 to 253), over the basic read of the run steps. Its result
  \<^verbatim>\<open>j6\<close> is not used by what follows; its exceptions end the invocation.
\<close>

definition joins_j :: "tables \<Rightarrow> pyerr + unit" where
  "joins_j T =
     and_then (merge (''ProcessModuleId'' \<in> set (run_step_columns T)) True (key_clash T ''j1'')
                 ProcessModuleId Id (run_step_dedup T) (pm_by_module (process_module T))) (\<lambda>j1.
     and_then (names_chain T ''j'' j1) (\<lambda>j5.
     and_then (merge (''RunId'' \<in> set (run_step_columns T)) True (key_clash T ''j6'')
                 (\<lambda>x. RunId (fst (fst (fst (fst (fst x)))))) run_RunId j5 (run_dedup T)) (\<lambda>j6.
     Inr ())))"

text \<open>
  The current steps (lines 271 to 315): the derived columns for every row of \<^verbatim>\<open>rs\<close>, then
  the grouping by \<^verbatim>\<open>RunId\<close>, which raises \<^verbatim>\<open>KeyError\<close> when the column is not carried.
  The source builds the start column for all rows and then the finish column; the only
  exception of either is the overflow, so the rows are taken one by one here.
\<close>

definition current_steps ::
  "(string \<Rightarrow> instant) \<Rightarrow> (string \<Rightarrow> int option) \<Rightarrow> tables \<Rightarrow> pyerr + rs_row list" where
  "current_steps to_datetime to_timedelta T =
     and_then (collect (add_status to_datetime to_timedelta (rs_columns T)) (rs T)) (\<lambda>rows.
     and_then (require ''RunId'' (rs_columns T)) (\<lambda>u.
     current_step (rs_columns T) rows))"

text \<open>
  The second join pass (lines 318 to 330), over the current steps. The selection
  \<^verbatim>\<open>pm_by_module[["Id", "ProcessId", "ModuleId"]]\<close> and the selection of the five run
  columns raise \<^verbatim>\<open>KeyError\<close> when one of the columns is not carried. \<open>resolve_names\<close> is
  what the pass gives when nothing raises.
\<close>

type_synonym c5_row = "(rs_row named_row \<times> ptype_row option) \<times> run_row option"

definition c5_step :: "c5_row \<Rightarrow> rs_row" where
  "c5_step x = fst (fst (fst (fst (fst (fst x)))))"

definition run_names :: "tables \<Rightarrow> run_row list" where
  "run_names T = drop_duplicates run_RunId (run_dedup T)"

definition resolve_names :: "tables \<Rightarrow> rs_row list \<Rightarrow> c5_row list" where
  "resolve_names T cur =
     merge_left (\<lambda>x. RunId (fst (fst (fst (fst (fst x)))))) run_RunId
       (names_rows T (merge_left ProcessModuleId Id cur (pm_by_module (process_module T))))
       (run_names T)"

definition resolve_current :: "tables \<Rightarrow> rs_row list \<Rightarrow> pyerr + c5_row list" where
  "resolve_current T cur =
     and_then (require ''ModuleId'' (process_module_columns T)) (\<lambda>u.
     and_then (merge (''ProcessModuleId'' \<in> set (rs_columns T)) True (key_clash T ''c1'')
                 ProcessModuleId Id cur (pm_by_module (process_module T))) (\<lambda>c1.
     and_then (names_chain T ''c'' c1) (\<lambda>c5.
     and_then (if list_all (\<lambda>c. c \<in> set (run_columns T))
                     [''Label'', ''Name'', ''Motivation'', ''Status'']
               then Inr () else Inl KeyError) (\<lambda>u.
     merge True True (key_clash T ''c5_run'')
       (\<lambda>x. RunId (fst (fst (fst (fst (fst x)))))) run_RunId c5 (run_names T)))))"

section \<open>Projection\<close>

text \<open>
  \<^verbatim>\<open>strip_html\<close>: every match of \<^verbatim>\<open><[^>]+>\<close> is removed, then \<^verbatim>\<open>str.strip\<close> takes the
  white space from both ends. A match starts at a \<^verbatim>\<open><\<close> that is followed by at least one
  character other than \<^verbatim>\<open>>\<close> and then a \<^verbatim>\<open>>\<close>. \<^verbatim>\<open>str.strip\<close> is a function of Python
  and a parameter here.
\<close>

function strip_tags :: "string \<Rightarrow> string" where
  "strip_tags [] = []"
| "strip_tags (c # cs) =
     (if c = CHR ''<'' \<and> takeWhile (\<lambda>x. x \<noteq> CHR ''>'') cs \<noteq> []
           \<and> dropWhile (\<lambda>x. x \<noteq> CHR ''>'') cs \<noteq> []
      then strip_tags (tl (dropWhile (\<lambda>x. x \<noteq> CHR ''>'') cs))
      else c # strip_tags cs)"
  by pat_completeness auto
termination
proof (relation "measure length")
  show "wf (measure length)" by simp
next
  fix c :: char and cs :: string
  have "length (dropWhile (\<lambda>x. x \<noteq> CHR ''>'') cs) \<le> length cs"
    by (rule length_dropWhile_le)
  then show "(tl (dropWhile (\<lambda>x. x \<noteq> CHR ''>'') cs), c # cs) \<in> measure length"
    by simp
next
  fix c :: char and cs :: string
  show "(cs, c # cs) \<in> measure length" by simp
qed

definition strip_html :: "(string \<Rightarrow> string) \<Rightarrow> text_cell \<Rightarrow> text_cell" where
  "strip_html str_strip s =
     (case s of None \<Rightarrow> None | Some x \<Rightarrow> Some (str_strip (strip_tags x)))"

text \<open>
  \<^verbatim>\<open>current_location\<close>: the kept columns of the resolved rows, sorted by RunId descending
  with a stable sort (rows without RunId last). The columns the projector does not read
  are left out of the record. A name column that its file does not carry is absent from
  the row, and the projector finds no value for it.
\<close>

record location_row =
  l_RunId :: num
  l_Label :: text_cell
  l_RunName :: text_cell
  l_Status :: text_cell
  l_MotivationText :: text_cell
  l_ProcessName :: text_cell
  l_CategoryName :: text_cell
  l_ProcessTypeName :: text_cell
  l_status :: text_cell
  l_started_at :: instant
  l_finished_at :: instant

definition keep_cols :: "tables \<Rightarrow> (string \<Rightarrow> string) \<Rightarrow> c5_row \<Rightarrow> location_row" where
  "keep_cols T str_strip x =
     (let r = snd x; c5 = fst x; t = snd c5; c3 = fst (fst c5); c = snd c3;
          p = snd (fst c3); s = c5_step x
      in \<lparr>l_RunId = RunId s,
          l_Label = cell Label r,
          l_RunName = cell RunName r,
          l_Status = cell Status r,
          l_MotivationText = strip_html str_strip (cell Motivation r),
          l_ProcessName = carried (process_columns T) ''Name'' (cell ProcessName p),
          l_CategoryName = carried (process_category_columns T) ''Name'' (cell CategoryName c),
          l_ProcessTypeName = carried (process_type_columns T) ''Name'' (cell ProcessTypeName t),
          l_status = status s,
          l_started_at = started_at s,
          l_finished_at = finished_at s\<rparr>)"

definition sort_RunId_desc :: "location_row list \<Rightarrow> location_row list" where
  "sort_RunId_desc xs =
     rev (sort_key (\<lambda>x. the (l_RunId x)) (rev (filter (\<lambda>x. l_RunId x \<noteq> None) xs)))
     @ filter (\<lambda>x. l_RunId x = None) xs"

text \<open>
  One output record per row of \<^verbatim>\<open>current_location\<close>. \<^verbatim>\<open>str\<close> of an instant is a
  function of pandas and a parameter here.
\<close>

record batch =
  batch_id :: int
  batch_number :: string
  batch_name :: string
  batch_status :: string
  motivation :: string
  process_name :: string
  category_name :: string
  process_type_name :: string
  process_status :: string
  batch_started_at :: string
  batch_finished_at :: string

definition str_or :: "string \<Rightarrow> text_cell \<Rightarrow> string" where
  "str_or dflt v = (case v of None \<Rightarrow> dflt | Some s \<Rightarrow> s)"

definition to_batch :: "(int \<Rightarrow> string) \<Rightarrow> location_row \<Rightarrow> batch" where
  "to_batch ts_str row =
     \<lparr>batch_id = (case l_RunId row of None \<Rightarrow> 0 | Some n \<Rightarrow> n),
      batch_number = str_or '''' (l_Label row),
      batch_name = str_or ''Unknown'' (l_RunName row),
      batch_status = str_or '''' (l_Status row),
      motivation = str_or '''' (l_MotivationText row),
      process_name = str_or '''' (l_ProcessName row),
      category_name = str_or '''' (l_CategoryName row),
      process_type_name = str_or '''' (l_ProcessTypeName row),
      process_status = str_or ''Unknown'' (l_status row),
      batch_started_at = (case l_started_at row of None \<Rightarrow> '''' | Some t \<Rightarrow> ts_str t),
      batch_finished_at = (case l_finished_at row of None \<Rightarrow> '''' | Some t \<Rightarrow> ts_str t)\<rparr>"

text \<open>
  The whole of steps 2 and 3 in the order of the source: the six tables are prepared, the
  first join pass runs, the current steps are selected and resolved, and the rows are
  sorted and projected.
\<close>

definition current_location ::
  "(string \<Rightarrow> instant) \<Rightarrow> (string \<Rightarrow> int option) \<Rightarrow> (string \<Rightarrow> string) \<Rightarrow> tables
     \<Rightarrow> pyerr + location_row list" where
  "current_location to_datetime to_timedelta str_strip T =
     and_then (load_checks T) (\<lambda>u.
     and_then (joins_j T) (\<lambda>u.
     and_then (current_steps to_datetime to_timedelta T) (\<lambda>cur.
     and_then (resolve_current T cur) (\<lambda>c5.
     Inr (sort_RunId_desc (map (keep_cols T str_strip) c5))))))"

definition batches ::
  "(string \<Rightarrow> instant) \<Rightarrow> (string \<Rightarrow> int option) \<Rightarrow> (int \<Rightarrow> string) \<Rightarrow> (string \<Rightarrow> string)
     \<Rightarrow> tables \<Rightarrow> pyerr + batch list" where
  "batches to_datetime to_timedelta ts_str str_strip T =
     (case current_location to_datetime to_timedelta str_strip T of
        Inl e \<Rightarrow> Inl e
      | Inr rows \<Rightarrow> Inr (map (to_batch ts_str) rows))"

text \<open>
  The category of a step, found through its process module and its process, and the rows
  of the bridge table for a category.
\<close>

definition step_category :: "tables \<Rightarrow> 'a run_step_row_scheme \<Rightarrow> num" where
  "step_category T s =
     cell p_CategoryId
       (find (\<lambda>p. p_ProcessId p
                     = cell ProcessId
                         (find (\<lambda>m. Id m = ProcessModuleId s) (pm_by_module (process_module T))))
          (drop_duplicates p_ProcessId (process_tbl T)))"

definition bridge_rows :: "tables \<Rightarrow> num \<Rightarrow> ptc_row list" where
  "bridge_rows T c =
     filter (\<lambda>r. tc_CategoryId r = c) (drop_duplicates (\<lambda>r. r) (process_type_category T))"

section \<open>Example tables\<close>

text \<open>
  A run step that names its run and process module only. The frames the reader returns
  when no file can be read: no rows, every requested column. Tables in which the run table
  is empty and run 1 has one step. Tables with two runs, three steps and a given bridge
  table between categories and types.
\<close>

definition bare_step :: "int \<Rightarrow> int \<Rightarrow> run_step_row" where
  "bare_step run_id pm =
     \<lparr>RunId = Some run_id, ProcessModuleId = Some pm, Sequence = None,
      StartDate = None, StartTime = None, FinishDate = None, FinishTime = None,
      batch_index = None, fragment_index = None\<rparr>"

definition empty_tables :: tables where
  "empty_tables =
     \<lparr>run_columns = [''Id'', ''Label'', ''Name'', ''Motivation'', ''Status'', ''RunTypeId''],
      run = [],
      run_step_columns = [''RunId'', ''ProcessModuleId''],
      run_step = [],
      rs_columns = [''RunId'', ''ProcessModuleId'', ''Sequence'', ''StartDate'', ''StartTime'',
                    ''FinishDate'', ''FinishTime'', ''__batch_index'', ''__fragment_index''],
      rs = [],
      process_module_columns = [''Id'', ''ProcessId'', ''ModuleId''],
      process_module = [],
      process_columns = [''Id'', ''Name'', ''CategoryId''],
      process_tbl = [],
      process_category_columns = [''Id'', ''Name''],
      process_category = [],
      process_type_category_columns = [''TypeId'', ''CategoryId''],
      process_type_category = [],
      process_type_columns = [''Id'', ''Name''],
      process_type = [],
      key_clash = (\<lambda>v. False)\<rparr>"

definition orphan_tables :: tables where
  "orphan_tables =
     empty_tables
       \<lparr>run_step_columns := [''RunId'', ''ProcessModuleId''], run_step := [bare_step 1 10],
        rs_columns := [''RunId'', ''ProcessModuleId''], rs := [bare_step 1 10]\<rparr>"

definition bridged_tables :: "ptc_row list \<Rightarrow> tables" where
  "bridged_tables ptc =
     empty_tables
       \<lparr>run := [\<lparr>run_RunId = Some 1, Label = Some ''B-1'', RunName = None,
                 Motivation = Some ''<p>trial</p>'', Status = Some ''Open'', RunTypeId = None\<rparr>,
                \<lparr>run_RunId = Some 2, Label = Some ''B-2'', RunName = Some ''second'',
                 Motivation = None, Status = None, RunTypeId = None\<rparr>],
        run_step := [bare_step 1 10, bare_step 2 10],
        rs_columns := [''RunId'', ''ProcessModuleId''],
        rs := [bare_step 1 10, bare_step 2 10, bare_step 1 10],
        process_module := [\<lparr>Id = Some 10, ProcessId = Some 5, ModuleId = Some 1\<rparr>],
        process_tbl := [\<lparr>p_ProcessId = Some 5, ProcessName = Some ''Etch'', p_CategoryId = Some 3\<rparr>,
                        \<lparr>p_ProcessId = Some 6, ProcessName = Some ''Rinse'', p_CategoryId = Some 4\<rparr>],
        process_category := [\<lparr>c_CategoryId = Some 3, CategoryName = Some ''Wet''\<rparr>],
        process_type_category := ptc,
        process_type := [\<lparr>ProcessTypeId = Some 1, ProcessTypeName = Some ''Front''\<rparr>,
                         \<lparr>ProcessTypeId = Some 2, ProcessTypeName = Some ''Back''\<rparr>]\<rparr>"

section \<open>Locating the snapshot files\<close>

text \<open>
  The container listing (\<^verbatim>\<open>azure_list_blobs\<close>, empty when the listing fails) and the status
  codes of the two existence probes (HEAD, then a ranged GET) are inputs of the model.
  \<^verbatim>\<open>str.lower\<close> is read over ASCII.
\<close>

definition NEEDED :: "string list" where
  "NEEDED = [''run'', ''run_step'', ''process_module'', ''process'', ''process_category'',
             ''process_type_category'', ''process_type'']"

definition CANDIDATES_dict :: "(string \<times> string list) list" where
  "CANDIDATES_dict =
        [(''run'', [''run.parquet'', ''parquet/run.parquet'', ''tables/run.parquet'',
                    ''delta/run.parquet'']),
         (''run_step'', [''run_step.parquet'', ''parquet/run_step.parquet'',
                         ''tables/run_step.parquet'', ''delta/run_step.parquet'']),
         (''process_module'', [''process_module.parquet'', ''parquet/process_module.parquet'',
                               ''tables/process_module.parquet'']),
         (''process'', [''process.parquet'', ''parquet/process.parquet'',
                        ''tables/process.parquet'']),
         (''process_category'', [''process_category.parquet'',
                                 ''parquet/process_category.parquet'',
                                 ''tables/process_category.parquet'']),
         (''process_type_category'', [''process_type_category.parquet'',
                                      ''parquet/process_type_category.parquet'',
                                      ''tables/process_type_category.parquet'']),
         (''process_type'', [''process_type.parquet'', ''parquet/process_type.parquet'',
                             ''tables/process_type.parquet''])]"

definition CANDIDATES :: "string \<Rightarrow> string list" where
  \<comment> \<open>The dictionary of the source is looked up for the needed names only.\<close>
  "CANDIDATES table = (case map_of CANDIDATES_dict table of None \<Rightarrow> [] | Some cs \<Rightarrow> cs)"

definition lower_char :: "char \<Rightarrow> char" where
  "lower_char c =
     (if CHR ''A'' \<le> c \<and> c \<le> CHR ''Z'' then char_of (of_char c + (32::nat)) else c)"

definition lower :: "string \<Rightarrow> string" where
  "lower s = map lower_char s"

definition endswith :: "string \<Rightarrow> string \<Rightarrow> bool" where
  "endswith s t = (length t \<le> length s \<and> drop (length s - length t) s = t)"

definition pick_blob_from_list :: "string list \<Rightarrow> string \<Rightarrow> string option" where
  "pick_blob_from_list all_blobs table =
     (let leaf = lower (table @ ''.parquet'');
          exact = filter (\<lambda>b. lower b = leaf \<or> endswith (lower b) (''/'' @ leaf)) all_blobs
      in if exact \<noteq> [] then Some (hd exact)
         else let anymatch = filter (\<lambda>b. endswith (lower b) leaf) all_blobs
              in if anymatch \<noteq> [] then Some (hd anymatch) else None)"

definition ok_status :: "nat \<Rightarrow> bool" where
  "ok_status code = (code = 200 \<or> code = 206)"

fun probe :: "(string \<Rightarrow> nat) \<Rightarrow> (string \<Rightarrow> nat) \<Rightarrow> string list \<Rightarrow> string option" where
  "probe head_status get_status [] = None"
| "probe head_status get_status (cand # cands) =
     (if ok_status (head_status cand) then Some cand
      else if ok_status (get_status cand) then Some cand
      else probe head_status get_status cands)"

definition guess_blob_for_table ::
  "(string \<Rightarrow> nat) \<Rightarrow> (string \<Rightarrow> nat) \<Rightarrow> string \<Rightarrow> string option" where
  "guess_blob_for_table head_status get_status table =
     probe head_status get_status (CANDIDATES table)"

text \<open>
  Python's \<^verbatim>\<open>not blob\<close> holds for \<^verbatim>\<open>None\<close> and for the empty string.
\<close>

definition falsy :: "string option \<Rightarrow> bool" where
  "falsy blob = (blob = None \<or> blob = Some [])"

definition locate ::
  "string list \<Rightarrow> (string \<Rightarrow> nat) \<Rightarrow> (string \<Rightarrow> nat) \<Rightarrow> string \<Rightarrow> string option" where
  "locate blobs head_status get_status tbl =
     (let blob = (if blobs \<noteq> [] then pick_blob_from_list blobs tbl else None)
      in if falsy blob then guess_blob_for_table head_status get_status tbl else blob)"

fun select_tables ::
  "string list \<Rightarrow> (string \<Rightarrow> nat) \<Rightarrow> (string \<Rightarrow> nat) \<Rightarrow> string list \<Rightarrow> (string \<rightharpoonup> string)
     \<Rightarrow> string + (string \<rightharpoonup> string)" where
  "select_tables blobs head_status get_status [] selected = Inr selected"
| "select_tables blobs head_status get_status (tbl # tbls) selected =
     (let blob = locate blobs head_status get_status tbl
      in if falsy blob then Inl (''Missing remote parquet for table: '' @ tbl)
         else select_tables blobs head_status get_status tbls
                (selected(tbl \<mapsto> the blob)))"

text \<open>
  The entry point. Step 2 of the source, which reads the seven selected files into frames,
  is the parameter \<open>load\<close>; it is applied to the selection only when every table was
  located. An exception below the entry point is caught there and turned into a failure
  payload that carries the exception's text.
\<close>

datatype payload = Success "batch list" nat | Failure string | Crashed pyerr

definition get_current_batch_location ::
  "string list \<Rightarrow> (string \<Rightarrow> nat) \<Rightarrow> (string \<Rightarrow> nat) \<Rightarrow> ((string \<rightharpoonup> string) \<Rightarrow> tables)
     \<Rightarrow> (string \<Rightarrow> instant) \<Rightarrow> (string \<Rightarrow> int option) \<Rightarrow> (int \<Rightarrow> string) \<Rightarrow> (string \<Rightarrow> string)
     \<Rightarrow> payload" where
  "get_current_batch_location blobs head_status get_status load to_datetime to_timedelta ts_str
     str_strip =
     (case select_tables blobs head_status get_status (sort NEEDED) Map.empty of
        Inl msg \<Rightarrow> Failure msg
      | Inr selected \<Rightarrow>
          (case batches to_datetime to_timedelta ts_str str_strip (load selected) of
             Inl e \<Rightarrow> Crashed e
           | Inr bs \<Rightarrow> Success bs (length bs)))"

section \<open>The table reader\<close>

text \<open>
  A frame is a list of named columns, in order; a stored file is a frame whose column names
  may repeat. The download (\<open>None\<close> when the response is not 200) and the three calls into
  the parquet library, \<^verbatim>\<open>pq.ParquetFile\<close>, \<^verbatim>\<open>parquet_file.read(columns=...)\<close> and
  \<^verbatim>\<open>table.to_pandas()\<close>, are parameters; each of the calls may raise.
\<close>

type_synonym 'c frame = "(string \<times> 'c list) list"

definition empty_frame :: "string list \<Rightarrow> 'c frame" where
  \<comment> \<open>\<^verbatim>\<open>pd.DataFrame(columns=columns)\<close>\<close>
  "empty_frame columns = map (\<lambda>c. (c, [])) columns"

fun unique_indices :: "nat \<Rightarrow> string set \<Rightarrow> string list \<Rightarrow> nat list" where
  "unique_indices i seen [] = []"
| "unique_indices i seen (col_name # rest) =
     (if col_name \<notin> seen then i # unique_indices (Suc i) (insert col_name seen) rest
      else unique_indices (Suc i) seen rest)"

text \<open>
  The argument \<^verbatim>\<open>columns=\<close> of the read: with duplicate names in the schema, the names at
  the unique indices; otherwise the wanted columns that exist, or no restriction when none
  exists.
\<close>

definition read_request :: "string list \<Rightarrow> string list \<Rightarrow> string list option" where
  "read_request columns col_names =
     (if length col_names \<noteq> card (set col_names)
      then Some (map (\<lambda>i. col_names ! i) (unique_indices 0 {} col_names))
      else let available_cols = filter (\<lambda>c. c \<in> set col_names) columns
           in if available_cols \<noteq> [] then Some available_cols else None)"

text \<open>
  \<^verbatim>\<open>df[available_cols]\<close> takes, for each label in turn, every column of that label.
\<close>

definition getitem :: "'c frame \<Rightarrow> string list \<Rightarrow> 'c frame" where
  "getitem df labels = concat (map (\<lambda>l. filter (\<lambda>col. fst col = l) df) labels)"

definition select_columns :: "string list \<Rightarrow> 'c frame \<Rightarrow> 'c frame" where
  "select_columns columns df =
     (if columns \<noteq> []
      then let available_cols = filter (\<lambda>c. c \<in> set (map fst df)) columns
           in if available_cols \<noteq> [] then getitem df available_cols else empty_frame columns
      else df)"

text \<open>The body of the \<^verbatim>\<open>try\<close>, and the function with its \<^verbatim>\<open>except Exception\<close>.\<close>

definition read_body ::
  "'b option \<Rightarrow> ('b \<Rightarrow> 'e + 'c frame) \<Rightarrow> ('c frame \<Rightarrow> string list option \<Rightarrow> 'e + 'c frame)
     \<Rightarrow> ('c frame \<Rightarrow> 'e + 'c frame) \<Rightarrow> string list \<Rightarrow> 'e + 'c frame" where
  "read_body blob_data ParquetFile read_columns to_pandas columns =
     (case blob_data of
        None \<Rightarrow> Inr (empty_frame columns)
      | Some data \<Rightarrow>
          (case ParquetFile data of
             Inl e \<Rightarrow> Inl e
           | Inr parquet_file \<Rightarrow>
               (case read_columns parquet_file (read_request columns (map fst parquet_file)) of
                  Inl e \<Rightarrow> Inl e
                | Inr table \<Rightarrow>
                    (case to_pandas table of
                       Inl e \<Rightarrow> Inl e
                     | Inr df \<Rightarrow> Inr (select_columns columns df)))))"

definition read_parquet_subset ::
  "'b option \<Rightarrow> ('b \<Rightarrow> 'e + 'c frame) \<Rightarrow> ('c frame \<Rightarrow> string list option \<Rightarrow> 'e + 'c frame)
     \<Rightarrow> ('c frame \<Rightarrow> 'e + 'c frame) \<Rightarrow> string list \<Rightarrow> 'c frame" where
  "read_parquet_subset blob_data ParquetFile read_columns to_pandas columns =
     (case read_body blob_data ParquetFile read_columns to_pandas columns of
        Inl e \<Rightarrow> empty_frame columns
      | Inr df \<Rightarrow> df)"

text \<open>
  A read that selects by name, as the parquet library does when it is given names: every
  stored column whose name is requested, in the order of the file.
\<close>

definition read_by_name :: "'c frame \<Rightarrow> string list option \<Rightarrow> 'e + 'c frame" where
  "read_by_name parquet_file request =
     (case request of
        None \<Rightarrow> Inr parquet_file
      | Some names \<Rightarrow> Inr (filter (\<lambda>col. fst col \<in> set names) parquet_file))"

text \<open>
  The values of the two pandas parsers on the strings of the examples: the fifth of January
  2024 in nanoseconds since the epoch, ten hours in nanoseconds; the empty string and a text
  that is not a date have no value.
\<close>

definition sample_to_datetime :: "string \<Rightarrow> instant" where
  "sample_to_datetime s = (if s = ''2024-01-05'' then Some 1704412800000000000 else None)"

definition sample_to_timedelta :: "string \<Rightarrow> int option" where
  "sample_to_timedelta s =
     (if s = ''00:00:00'' then Some 0
      else if s = ''10:00:00'' then Some 36000000000000
      else None)"

section \<open>Facts about the list operations\<close>

lemma map_filter_empty_iff: "(List.map_filter f xs = []) = (\<forall>x\<in>set xs. f x = None)"
  by (induction xs) (auto simp: List.map_filter_simps split: option.splits)

lemma set_map_filter: "set (List.map_filter f xs) = {v. \<exists>x\<in>set xs. f x = Some v}"
  by (induction xs) (auto simp: List.map_filter_simps split: option.splits)

lemma find_split:
  "find P g = Some p \<Longrightarrow> \<exists>pre post. g = pre @ p # post \<and> P p \<and> (\<forall>q\<in>set pre. \<not> P q)"
proof (induction g)
  case Nil
  then show ?case by simp
next
  case (Cons a g)
  show ?case
  proof (cases "P a")
    case True
    with Cons.prems have "a = p" by simp
    with True have "a # g = [] @ p # g \<and> P p \<and> (\<forall>q\<in>set []. \<not> P q)" by simp
    then show ?thesis by blast
  next
    case False
    with Cons obtain pre post where "g = pre @ p # post" "P p" "\<forall>q\<in>set pre. \<not> P q"
      by auto
    with False have "a # g = (a # pre) @ p # post \<and> P p \<and> (\<forall>q\<in>set (a # pre). \<not> P q)"
      by simp
    then show ?thesis by blast
  qed
qed

lemma idxmax_first_max:
  assumes "list_ex (\<lambda>p. col (snd p) \<noteq> None) g"
  shows "\<exists>pre p post m. g = pre @ p # post \<and> idxmax col g = Some (fst p) \<and>
           col (snd p) = Some m \<and>
           (\<forall>q\<in>set g. \<forall>v. col (snd q) = Some v \<longrightarrow> v \<le> m) \<and>
           (\<forall>q\<in>set pre. col (snd q) \<noteq> Some m)"
proof -
  let ?vals = "List.map_filter (\<lambda>p. col (snd p)) g"
  let ?m = "Max (set ?vals)"
  from assms have ne: "?vals \<noteq> []"
    by (auto simp: map_filter_empty_iff list_ex_iff)
  then have "?m \<in> set ?vals" by (intro Max_in) auto
  then obtain x where x: "x \<in> set g" "col (snd x) = Some ?m"
    by (auto simp: set_map_filter)
  have ub: "\<forall>q\<in>set g. \<forall>v. col (snd q) = Some v \<longrightarrow> v \<le> ?m"
  proof (intro ballI allI impI)
    fix q v assume "q \<in> set g" "col (snd q) = Some v"
    then have "v \<in> set ?vals" by (auto simp: set_map_filter)
    then show "v \<le> ?m" by (intro Max_ge) auto
  qed
  from x have "find (\<lambda>p. col (snd p) = Some ?m) g \<noteq> None"
    unfolding find_None_iff by blast
  then obtain p where p: "find (\<lambda>p. col (snd p) = Some ?m) g = Some p" by auto
  from find_split [OF p] obtain pre post where
    g: "g = pre @ p # post" and pm: "col (snd p) = Some ?m"
    and pre: "\<forall>q\<in>set pre. col (snd q) \<noteq> Some ?m"
    by blast
  have "idxmax col g = Some (fst p)"
    using ne p by (simp add: idxmax_def Let_def)
  with g pm ub pre show ?thesis by blast
qed

lemma loc_distinct:
  assumes "distinct (map fst g)" "g = pre @ p # post"
  shows "loc g (fst p) = [p]"
proof -
  from assms have "\<forall>x\<in>set pre. fst x \<noteq> fst p" "\<forall>x\<in>set post. fst x \<noteq> fst p"
    by (auto simp: image_iff)
  then have "filter (\<lambda>q. fst q = fst p) pre = []" "filter (\<lambda>q. fst q = fst p) post = []"
    by (simp_all add: filter_empty_conv)
  with assms(2) show ?thesis by (simp add: loc_def)
qed

lemma last_filter_keep: "xs \<noteq> [] \<Longrightarrow> P (last xs) \<Longrightarrow> last (filter P xs) = last xs"
  by (induction xs rule: rev_induct) auto

lemma last_sort_key_max:
  assumes "g \<noteq> []"
  shows "last (sort_key K g) \<in> set g
       \<and> (\<forall>q\<in>set g. K q \<le> K (last (sort_key K g)))
       \<and> last (sort_key K g) = last (filter (\<lambda>q. K q = K (last (sort_key K g))) g)"
proof -
  let ?s = "sort_key K g"
  let ?p = "last ?s"
  have ne: "?s \<noteq> []" using assms by (metis length_sort length_0_conv)
  have mem: "?p \<in> set g" using ne last_in_set by (metis set_sort)
  have srt: "sorted (map K ?s)" by simp
  have ub: "\<forall>q\<in>set g. K q \<le> K ?p"
  proof
    fix q assume "q \<in> set g"
    then have "q \<in> set ?s" by simp
    then obtain i where i: "i < length ?s" "?s ! i = q" unfolding in_set_conv_nth by blast
    have "map K ?s ! i \<le> map K ?s ! (length ?s - 1)"
      using srt i by (intro sorted_nth_mono) auto
    then show "K q \<le> K ?p" using i ne by (simp add: last_conv_nth)
  qed
  have "last (filter (\<lambda>q. K q = K ?p) ?s) = ?p"
    using ne by (intro last_filter_keep) auto
  then have "last (filter (\<lambda>q. K q = K ?p) g) = ?p"
    by (simp add: sort_key_stable)
  with mem ub show ?thesis by simp
qed

lemma key_hd_le:
  assumes "sort_key_of sk q \<le> sort_key_of sk p" "sk \<noteq> []"
  shows "na_last (ordinal (hd sk) (snd q)) \<le> na_last (ordinal (hd sk) (snd p))"
  using assms by (cases sk) (auto simp: sort_key_of_def)

lemma pick_by_idxmax:
  assumes "list_ex (\<lambda>p. col (snd p) \<noteq> None) g" "distinct (map fst g)"
  shows "\<exists>pre p post m. g = pre @ p # post \<and>
           (case idxmax col g of None \<Rightarrow> Inl ValueError | Some l \<Rightarrow> Inr (loc g l)) = Inr [p] \<and>
           col (snd p) = Some m \<and>
           (\<forall>q\<in>set g. \<forall>v. col (snd q) = Some v \<longrightarrow> v \<le> m) \<and>
           (\<forall>q\<in>set pre. col (snd q) \<noteq> Some m)"
proof -
  from idxmax_first_max [OF assms(1)] obtain pre p post m where
    h: "g = pre @ p # post" "idxmax col g = Some (fst p)" "col (snd p) = Some m"
       "\<forall>q\<in>set g. \<forall>v. col (snd q) = Some v \<longrightarrow> v \<le> m"
       "\<forall>q\<in>set pre. col (snd q) \<noteq> Some m"
    by blast
  have "loc g (fst p) = [p]" using assms(2) h(1) by (rule loc_distinct)
  with h show ?thesis by (intro exI [of _ pre] exI [of _ p] exI [of _ post] exI [of _ m]) simp
qed

lemma pick_current_cases:
  assumes "g \<noteq> []" and "distinct (map fst g)"
  shows "\<exists>p. pick_current columns g = Inr [p] \<and> p \<in> set g \<and>
     (if list_ex (\<lambda>q. updated_at (snd q) \<noteq> None) g
      then \<exists>m. updated_at (snd p) = Some m \<and>
               (\<forall>q\<in>set g. \<forall>v. updated_at (snd q) = Some v \<longrightarrow> v \<le> m)
      else if ordinal_columns columns \<noteq> []
      then (\<forall>q\<in>set g. sort_key_of (ordinal_columns columns) q \<le> sort_key_of (ordinal_columns columns) p) \<and>
           (\<forall>q\<in>set g. na_last (ordinal (hd (ordinal_columns columns)) (snd q))
                         \<le> na_last (ordinal (hd (ordinal_columns columns)) (snd p))) \<and>
           p = last (filter (\<lambda>q. sort_key_of (ordinal_columns columns) q
                                  = sort_key_of (ordinal_columns columns) p) g)
      else if ''Sequence'' \<in> set columns \<and> list_ex (\<lambda>q. Sequence (snd q) \<noteq> None) g
      then \<exists>m. Sequence (snd p) = Some m \<and>
               (\<forall>q\<in>set g. \<forall>v. Sequence (snd q) = Some v \<longrightarrow> v \<le> m)
      else p = last g)"
proof -
  let ?sk = "ordinal_columns columns"
  let ?U = "list_ex (\<lambda>q. updated_at (snd q) \<noteq> None) g"
  let ?S = "''Sequence'' \<in> set columns \<and> list_ex (\<lambda>q. Sequence (snd q) \<noteq> None) g"
  consider (upd) ?U | (ord) "\<not> ?U" "?sk \<noteq> []" | (seq) "\<not> ?U" "?sk = []" ?S
    | (lst) "\<not> ?U" "?sk = []" "\<not> ?S"
    by blast
  then show ?thesis
  proof cases
    case upd
    from pick_by_idxmax [OF upd assms(2)] obtain pre p post m where
      h: "g = pre @ p # post"
         "(case idxmax updated_at g of None \<Rightarrow> Inl ValueError | Some l \<Rightarrow> Inr (loc g l)) = Inr [p]"
         "updated_at (snd p) = Some m"
         "\<forall>q\<in>set g. \<forall>v. updated_at (snd q) = Some v \<longrightarrow> v \<le> m"
      by blast
    have "pick_current columns g = Inr [p]" using upd h(2) by (simp add: pick_current_def)
    moreover have "p \<in> set g" using h(1) by simp
    ultimately show ?thesis using upd h(3,4) by (intro exI [of _ p]) simp
  next
    case ord
    let ?p = "last (sort_key (sort_key_of ?sk) g)"
    from last_sort_key_max [OF assms(1), of "sort_key_of ?sk"] have
      m: "?p \<in> set g" and ub: "\<forall>q\<in>set g. sort_key_of ?sk q \<le> sort_key_of ?sk ?p"
      and lt: "?p = last (filter (\<lambda>q. sort_key_of ?sk q = sort_key_of ?sk ?p) g)"
      by blast+
    have ne: "sort_key (sort_key_of ?sk) g \<noteq> []" using assms(1) by (metis length_sort length_0_conv)
    have pc: "pick_current columns g = Inr [?p]"
      using ord ne by (simp add: pick_current_def ordinal_columns_def sort_values_def iloc_last_def Let_def)
    have hd: "\<forall>q\<in>set g. na_last (ordinal (hd ?sk) (snd q)) \<le> na_last (ordinal (hd ?sk) (snd ?p))"
      using ub ord(2) by (auto intro: key_hd_le)
    show ?thesis
      apply (rule exI [of _ ?p])
      using pc m ub hd lt ord by simp
  next
    case seq
    from seq(3) have ex: "list_ex (\<lambda>q. Sequence (snd q) \<noteq> None) g" by simp
    from pick_by_idxmax [OF ex assms(2)] obtain pre p post m where
      h: "g = pre @ p # post"
         "(case idxmax Sequence g of None \<Rightarrow> Inl ValueError | Some l \<Rightarrow> Inr (loc g l)) = Inr [p]"
         "Sequence (snd p) = Some m"
         "\<forall>q\<in>set g. \<forall>v. Sequence (snd q) = Some v \<longrightarrow> v \<le> m"
      by blast
    have "pick_current columns g = Inr [p]"
      using seq h(2) by (simp add: pick_current_def ordinal_columns_def)
    moreover have "p \<in> set g" using h(1) by simp
    ultimately show ?thesis using seq h(3,4) by (intro exI [of _ p]) simp
  next
    case lst
    have "pick_current columns g = Inr [last g]"
      using lst assms(1) by (auto simp: pick_current_def ordinal_columns_def iloc_last_def)
    then show ?thesis using lst assms(1) by (intro exI [of _ "last g"]) auto
  qed
qed

section \<open>Facts about deduplication and joins\<close>

lemma set_drop_duplicates: "set (drop_duplicates key xs) \<subseteq> set xs"
  by (induction key xs rule: drop_duplicates.induct) auto

lemma filter_drop_duplicates:
  "filter (\<lambda>y. key y = k) (drop_duplicates key xs) =
     (case filter (\<lambda>y. key y = k) xs of [] \<Rightarrow> [] | x # _ \<Rightarrow> [x])"
proof (induction key xs rule: drop_duplicates.induct)
  case (1 key)
  then show ?case by simp
next
  case (2 key x xs)
  let ?rest = "filter (\<lambda>y. key y \<noteq> key x) xs"
  show ?case
  proof (cases "key x = k")
    case True
    have "\<forall>y\<in>set (drop_duplicates key ?rest). key y \<noteq> k"
      using True set_drop_duplicates [of key ?rest] by auto
    then have "filter (\<lambda>y. key y = k) (drop_duplicates key ?rest) = []"
      by (simp add: filter_empty_conv)
    with True show ?thesis by simp
  next
    case False
    have "filter (\<lambda>y. key y = k) ?rest = filter (\<lambda>y. key y = k) xs"
      using False by (auto intro: filter_cong)
    with False 2 show ?thesis by simp
  qed
qed

lemma drop_duplicates_unique: "length (filter (\<lambda>y. key y = k) (drop_duplicates key xs)) \<le> 1"
  by (simp add: filter_drop_duplicates split: list.splits)

lemma find_filter_hd: "find P xs = (case filter P xs of [] \<Rightarrow> None | x # _ \<Rightarrow> Some x)"
  by (induction xs) auto

lemma hd_sort_key_min:
  assumes "ys \<noteq> []"
  shows "hd (sort_key f ys) \<in> set ys
       \<and> (\<forall>y\<in>set ys. f (hd (sort_key f ys)) \<le> f y)
       \<and> filter (\<lambda>y. f y = f (hd (sort_key f ys))) ys \<noteq> []
       \<and> hd (sort_key f ys) = hd (filter (\<lambda>y. f y = f (hd (sort_key f ys))) ys)"
proof -
  let ?s = "sort_key f ys"
  let ?h = "hd ?s"
  have ne: "?s \<noteq> []" using assms by (metis length_sort length_0_conv)
  then obtain t where s: "?s = ?h # t" by (cases ?s) auto
  have mem: "?h \<in> set ys" using ne hd_in_set by (metis set_sort)
  have srt: "sorted (map f ?s)" by simp
  have lb: "\<forall>y\<in>set ys. f ?h \<le> f y"
  proof
    fix y assume "y \<in> set ys"
    then have "y \<in> set ?s" by simp
    with s have "y = ?h \<or> y \<in> set t" by (metis set_ConsD)
    moreover from srt s have "\<forall>z\<in>set t. f ?h \<le> f z" by (metis list.simps(9) sorted_simps(2) imageI list.set_map)
    ultimately show "f ?h \<le> f y" by auto
  qed
  have "filter (\<lambda>y. f y = f ?h) ?s = ?h # filter (\<lambda>y. f y = f ?h) t"
    using s by (metis (mono_tags, lifting) filter.simps(2))
  then have e: "filter (\<lambda>y. f y = f ?h) ys = ?h # filter (\<lambda>y. f y = f ?h) t"
    by (simp add: sort_key_stable)
  then have "hd (filter (\<lambda>y. f y = f ?h) ys) = ?h" "filter (\<lambda>y. f y = f ?h) ys \<noteq> []" by simp_all
  with mem lb show ?thesis by simp
qed

lemma merge_left_fst_set: "set (map fst (merge_left lk rk L R)) = set L"
proof (induction L)
  case Nil
  then show ?case by (simp add: merge_left_def)
next
  case (Cons l L)
  have "set (map fst (case filter (\<lambda>r. rk r = lk l) R of [] \<Rightarrow> [(l, None)]
                       | ms \<Rightarrow> map (\<lambda>r. (l, Some r)) ms)) = {l}"
    by (cases "filter (\<lambda>r. rk r = lk l) R") (auto simp: image_iff)
  with Cons show ?case by (simp add: merge_left_def del: set_map)
qed

lemma merge_left_fst_unique:
  assumes "\<And>k. length (filter (\<lambda>r. rk r = k) R) \<le> 1"
  shows "map fst (merge_left lk rk L R) = L"
proof (induction L)
  case Nil
  then show ?case by (simp add: merge_left_def)
next
  case (Cons l L)
  have "length (filter (\<lambda>r. rk r = lk l) R) \<le> 1" by (rule assms)
  then have "map fst (case filter (\<lambda>r. rk r = lk l) R of [] \<Rightarrow> [(l, None)]
                       | ms \<Rightarrow> map (\<lambda>r. (l, Some r)) ms) = [l]"
    by (cases "filter (\<lambda>r. rk r = lk l) R") auto
  with Cons show ?case by (simp add: merge_left_def)
qed

lemma merge_left_fst_unique_on:
  assumes "\<forall>l\<in>set L. length (filter (\<lambda>r. rk r = lk l) R) \<le> 1"
  shows "map fst (merge_left lk rk L R) = L"
  using assms
proof (induction L)
  case Nil
  then show ?case by (simp add: merge_left_def)
next
  case (Cons l L)
  then have "length (filter (\<lambda>r. rk r = lk l) R) \<le> 1" by simp
  then have one: "map fst (case filter (\<lambda>r. rk r = lk l) R of [] \<Rightarrow> [(l, None)]
                       | ms \<Rightarrow> map (\<lambda>r. (l, Some r)) ms) = [l]"
    by (cases "filter (\<lambda>r. rk r = lk l) R") auto
  from Cons have "map fst (merge_left lk rk L R) = L" by simp
  with one show ?case by (simp add: merge_left_def)
qed

lemma merge_left_find:
  assumes "\<And>k. length (filter (\<lambda>r. rk r = k) R) \<le> 1"
  shows "merge_left lk rk L R = map (\<lambda>l. (l, find (\<lambda>r. rk r = lk l) R)) L"
proof (induction L)
  case Nil
  then show ?case by (simp add: merge_left_def)
next
  case (Cons l L)
  have "length (filter (\<lambda>r. rk r = lk l) R) \<le> 1" by (rule assms)
  then have one: "(case filter (\<lambda>r. rk r = lk l) R of [] \<Rightarrow> [(l, None)]
                   | ms \<Rightarrow> map (\<lambda>r. (l, Some r)) ms) = [(l, find (\<lambda>r. rk r = lk l) R)]"
    by (cases "filter (\<lambda>r. rk r = lk l) R") (auto simp: find_filter_hd)
  from Cons have "merge_left lk rk L R = map (\<lambda>l. (l, find (\<lambda>r. rk r = lk l) R)) L" .
  with one show ?case by (simp add: merge_left_def)
qed

lemma and_then_Inr:
  assumes "and_then m f = Inr y"
  obtains x where "m = Inr x" "f x = Inr y"
  using assms by (cases m) (auto simp: and_then_def)

lemma merge_Inr:
  assumes "merge lh rh cl lo ro L R = Inr x"
  shows "x = merge_left lo ro L R"
  using assms by (auto simp: merge_def split: if_splits)

lemma collect_Inr:
  assumes "collect f xs = Inr ys"
  shows "list_all2 (\<lambda>x y. f x = Inr y) xs ys"
  using assms
proof (induction xs arbitrary: ys)
  case Nil
  then show ?case by simp
next
  case (Cons x xs)
  from Cons.prems obtain y where y: "f x = Inr y" by (cases "f x") auto
  with Cons.prems obtain zs where zs: "collect f xs = Inr zs" by (cases "collect f xs") auto
  with y Cons.prems have "ys = y # zs" by simp
  with y zs Cons.IH show ?case by simp
qed

section \<open>Facts about grouping and name resolution\<close>

lemma set_group_keys: "set (group_keys rows) = {k. \<exists>r\<in>set rows. RunId r = Some k}"
  by (auto simp: group_keys_def set_map_filter)

lemma distinct_group_keys: "distinct (group_keys rows)"
  by (simp add: group_keys_def)

lemma sorted_group_keys: "sorted (group_keys rows)"
  by (simp add: group_keys_def)

lemma RunId_with_status: "RunId (with_status r sa fa) = RunId r"
  by (simp add: with_status_def run_step_row.extend_def)

lemma RunId_add_status:
  assumes "add_status dt td cols r = Inr row"
  shows "RunId row = RunId r"
  using assms
  by (auto simp: add_status_def RunId_with_status split: if_splits sum.splits)

lemma group_keys_collect:
  assumes "collect (add_status dt td cols) rows = Inr R"
  shows "group_keys R = group_keys rows"
proof -
  from collect_Inr [OF assms] have "list_all2 (\<lambda>x y. RunId y = RunId x) rows R"
    by (rule list_all2_mono) (simp add: RunId_add_status)
  then have "List.map_filter RunId R = List.map_filter RunId rows"
    by (induction rule: list_all2_induct) (simp_all add: List.map_filter_simps split: option.splits)
  then show ?thesis by (simp add: group_keys_def)
qed

lemma group_of_key:
  assumes "r \<in> set rows" "RunId r = Some k"
  shows "filter (\<lambda>p. RunId (snd p) = Some k) (enumerate 0 rows) \<noteq> []"
    and "distinct (map fst (filter (\<lambda>p. RunId (snd p) = Some k) (enumerate 0 rows)))"
proof -
  from assms(1) obtain i where "i < length rows" "rows ! i = r" by (auto simp: in_set_conv_nth)
  then have "(i, r) \<in> set (enumerate 0 rows)" by (auto simp: in_set_enumerate_eq)
  with assms(2) show "filter (\<lambda>p. RunId (snd p) = Some k) (enumerate 0 rows) \<noteq> []"
    by (force simp: filter_empty_conv)
  show "distinct (map fst (filter (\<lambda>p. RunId (snd p) = Some k) (enumerate 0 rows)))"
    by (rule distinct_map_filter) simp
qed

lemma apply_pick_groups:
  fixes rows :: "rs_row list"
  assumes "\<forall>k\<in>set ks. \<exists>r\<in>set rows. RunId r = Some k"
  shows "\<exists>ps. apply_concat (pick_current cols)
                 (map (\<lambda>k. filter (\<lambda>p. RunId (snd p) = Some k) (enumerate 0 rows)) ks) = Inr ps
              \<and> map (\<lambda>p. RunId (snd p)) ps = map Some ks"
  using assms
proof (induction ks)
  case Nil
  then show ?case by simp
next
  case (Cons k ks)
  let ?g = "filter (\<lambda>p. RunId (snd p) = Some k) (enumerate 0 rows)"
  from Cons.prems obtain r where r: "r \<in> set rows" "RunId r = Some k" by auto
  from pick_current_cases [OF group_of_key [OF r], of cols] obtain p where
    p: "pick_current cols ?g = Inr [p]" "p \<in> set ?g"
    by blast
  then have pk: "RunId (snd p) = Some k" by simp
  from Cons obtain ps where
    ps: "apply_concat (pick_current cols)
           (map (\<lambda>k. filter (\<lambda>p. RunId (snd p) = Some k) (enumerate 0 rows)) ks) = Inr ps"
        "map (\<lambda>p. RunId (snd p)) ps = map Some ks"
    by auto
  with p(1) pk show ?case by simp
qed

lemma current_step_keys:
  "\<exists>cur. current_step cols rows = Inr cur \<and> map RunId cur = map Some (group_keys rows)"
proof -
  have "\<forall>k\<in>set (group_keys rows). \<exists>r\<in>set rows. RunId r = Some k"
    by (simp add: set_group_keys)
  from apply_pick_groups [OF this, of cols] obtain ps where
    "apply_concat (pick_current cols) (groupby_RunId rows) = Inr ps"
    "map (\<lambda>p. RunId (snd p)) ps = map Some (group_keys rows)"
    by (auto simp: groupby_RunId_def)
  then show ?thesis by (simp add: current_step_def comp_def)
qed

lemma current_steps_keys:
  assumes "current_steps dt td T = Inr cur"
  shows "map RunId cur = map Some (group_keys (rs T))"
proof -
  from assms obtain rows where
    rows: "collect (add_status dt td (rs_columns T)) (rs T) = Inr rows"
    and rest: "and_then (require ''RunId'' (rs_columns T))
                 (\<lambda>u. current_step (rs_columns T) rows) = Inr cur"
    unfolding current_steps_def by (rule and_then_Inr)
  from rest obtain u where "current_step (rs_columns T) rows = Inr cur"
    by (rule and_then_Inr)
  with current_step_keys [of "rs_columns T" rows]
  have "map RunId cur = map Some (group_keys rows)" by auto
  with group_keys_collect [OF rows] show ?thesis by simp
qed

lemma map_c5_step: "map c5_step xs = map fst (map fst (map fst (map fst (map fst (map fst xs)))))"
  by (simp add: c5_step_def comp_def)

lemma resolve_names_steps_set: "set (map c5_step (resolve_names T cur)) = set cur"
proof -
  have step: "\<And>lk rk L R. fst ` set (merge_left lk rk L R) = set L"
    using merge_left_fst_set by (metis set_map)
  show ?thesis
    unfolding map_c5_step resolve_names_def names_rows_def Let_def
    by (simp only: set_map step)
qed

lemma names_chain_Inr:
  assumes "names_chain T v x1 = Inr x5"
  shows "x5 = names_rows T x1"
proof -
  from assms obtain x2 where
    x2: "merge True True (key_clash T (v @ ''2'')) (\<lambda>x. cell ProcessId (snd x)) p_ProcessId x1
           (drop_duplicates p_ProcessId (process_tbl T)) = Inr x2"
    and r2: "and_then (merge (''CategoryId'' \<in> set (process_columns T)) True (key_clash T (v @ ''3''))
                 (\<lambda>x. cell p_CategoryId (snd x)) c_CategoryId x2
                 (drop_duplicates c_CategoryId (process_category T))) (\<lambda>x3.
     and_then (merge True (''CategoryId'' \<in> set (process_type_category_columns T))
                 (key_clash T (v @ ''4''))
                 (\<lambda>x. cell p_CategoryId (snd (fst x))) tc_CategoryId x3
                 (drop_duplicates (\<lambda>r. r) (process_type_category T))) (\<lambda>x4.
     merge (''TypeId'' \<in> set (process_type_category_columns T)) True (key_clash T (v @ ''5''))
       (\<lambda>x. cell TypeId (snd x)) ProcessTypeId x4
       (drop_duplicates ProcessTypeId (process_type T)))) = Inr x5"
    unfolding names_chain_def by (rule and_then_Inr)
  from r2 obtain x3 where
    x3: "merge (''CategoryId'' \<in> set (process_columns T)) True (key_clash T (v @ ''3''))
                 (\<lambda>x. cell p_CategoryId (snd x)) c_CategoryId x2
                 (drop_duplicates c_CategoryId (process_category T)) = Inr x3"
    and r3: "and_then (merge True (''CategoryId'' \<in> set (process_type_category_columns T))
                 (key_clash T (v @ ''4''))
                 (\<lambda>x. cell p_CategoryId (snd (fst x))) tc_CategoryId x3
                 (drop_duplicates (\<lambda>r. r) (process_type_category T))) (\<lambda>x4.
     merge (''TypeId'' \<in> set (process_type_category_columns T)) True (key_clash T (v @ ''5''))
       (\<lambda>x. cell TypeId (snd x)) ProcessTypeId x4
       (drop_duplicates ProcessTypeId (process_type T))) = Inr x5"
    by (rule and_then_Inr)
  from r3 obtain x4 where
    x4: "merge True (''CategoryId'' \<in> set (process_type_category_columns T))
                 (key_clash T (v @ ''4''))
                 (\<lambda>x. cell p_CategoryId (snd (fst x))) tc_CategoryId x3
                 (drop_duplicates (\<lambda>r. r) (process_type_category T)) = Inr x4"
    and x5: "merge (''TypeId'' \<in> set (process_type_category_columns T)) True (key_clash T (v @ ''5''))
       (\<lambda>x. cell TypeId (snd x)) ProcessTypeId x4
       (drop_duplicates ProcessTypeId (process_type T)) = Inr x5"
    by (rule and_then_Inr)
  from merge_Inr [OF x2] merge_Inr [OF x3] merge_Inr [OF x4] merge_Inr [OF x5]
  show ?thesis by (simp add: names_rows_def Let_def)
qed

lemma resolve_current_Inr:
  assumes "resolve_current T cur = Inr x"
  shows "x = resolve_names T cur"
proof -
  from assms obtain u1 where
    r1: "and_then (merge (''ProcessModuleId'' \<in> set (rs_columns T)) True (key_clash T ''c1'')
                 ProcessModuleId Id cur (pm_by_module (process_module T))) (\<lambda>c1.
     and_then (names_chain T ''c'' c1) (\<lambda>c5.
     and_then (if list_all (\<lambda>c. c \<in> set (run_columns T))
                     [''Label'', ''Name'', ''Motivation'', ''Status'']
               then Inr () else Inl KeyError) (\<lambda>u.
     merge True True (key_clash T ''c5_run'')
       (\<lambda>x. RunId (fst (fst (fst (fst (fst x)))))) run_RunId c5 (run_names T)))) = Inr x"
    unfolding resolve_current_def by (rule and_then_Inr)
  from r1 obtain c1 where
    c1: "merge (''ProcessModuleId'' \<in> set (rs_columns T)) True (key_clash T ''c1'')
                 ProcessModuleId Id cur (pm_by_module (process_module T)) = Inr c1"
    and r2: "and_then (names_chain T ''c'' c1) (\<lambda>c5.
     and_then (if list_all (\<lambda>c. c \<in> set (run_columns T))
                     [''Label'', ''Name'', ''Motivation'', ''Status'']
               then Inr () else Inl KeyError) (\<lambda>u.
     merge True True (key_clash T ''c5_run'')
       (\<lambda>x. RunId (fst (fst (fst (fst (fst x)))))) run_RunId c5 (run_names T))) = Inr x"
    by (rule and_then_Inr)
  from r2 obtain c5 where
    c5: "names_chain T ''c'' c1 = Inr c5"
    and r3: "and_then (if list_all (\<lambda>c. c \<in> set (run_columns T))
                     [''Label'', ''Name'', ''Motivation'', ''Status'']
               then Inr () else Inl KeyError) (\<lambda>u.
     merge True True (key_clash T ''c5_run'')
       (\<lambda>x. RunId (fst (fst (fst (fst (fst x)))))) run_RunId c5 (run_names T)) = Inr x"
    by (rule and_then_Inr)
  from r3 obtain u2 where
    m: "merge True True (key_clash T ''c5_run'')
       (\<lambda>x. RunId (fst (fst (fst (fst (fst x)))))) run_RunId c5 (run_names T) = Inr x"
    by (rule and_then_Inr)
  from merge_Inr [OF c1] names_chain_Inr [OF c5] merge_Inr [OF m]
  show ?thesis by (simp add: resolve_names_def)
qed

lemma resolve_names_steps_single:
  assumes "\<forall>s\<in>set cur. length (bridge_rows T (step_category T s)) \<le> 1"
  shows "map c5_step (resolve_names T cur) = cur"
proof -
  let ?pm = "pm_by_module (process_module T)"
  let ?pr = "drop_duplicates p_ProcessId (process_tbl T)"
  let ?ca = "drop_duplicates c_CategoryId (process_category T)"
  let ?br = "drop_duplicates (\<lambda>r. r) (process_type_category T)"
  let ?ty = "drop_duplicates ProcessTypeId (process_type T)"
  let ?f1 = "\<lambda>s. (s, find (\<lambda>m. Id m = ProcessModuleId s) ?pm)"
  let ?f2 = "\<lambda>x. (x, find (\<lambda>p. p_ProcessId p = cell ProcessId (snd x)) ?pr)"
  let ?f3 = "\<lambda>x. (x, find (\<lambda>c. c_CategoryId c = cell p_CategoryId (snd x)) ?ca)"
  have pm: "\<And>k. length (filter (\<lambda>r. Id r = k) ?pm) \<le> 1"
    unfolding pm_by_module_def by (rule drop_duplicates_unique)
  have run: "\<And>k. length (filter (\<lambda>r. run_RunId r = k) (run_names T)) \<le> 1"
    unfolding run_names_def by (rule drop_duplicates_unique)
  have c1: "merge_left ProcessModuleId Id cur ?pm = map ?f1 cur"
    by (rule merge_left_find [OF pm])
  have c2: "merge_left (\<lambda>x. cell ProcessId (snd x)) p_ProcessId (map ?f1 cur) ?pr
              = map ?f2 (map ?f1 cur)"
    by (rule merge_left_find [OF drop_duplicates_unique])
  have c3: "merge_left (\<lambda>x. cell p_CategoryId (snd x)) c_CategoryId (map ?f2 (map ?f1 cur)) ?ca
              = map ?f3 (map ?f2 (map ?f1 cur))"
    by (rule merge_left_find [OF drop_duplicates_unique])
  let ?c3 = "map ?f3 (map ?f2 (map ?f1 cur))"
  have "\<forall>l\<in>set ?c3. length (filter (\<lambda>r. tc_CategoryId r = cell p_CategoryId (snd (fst l))) ?br) \<le> 1"
  proof
    fix l assume "l \<in> set ?c3"
    then obtain s where s: "s \<in> set cur" and l: "l = ?f3 (?f2 (?f1 s))" by auto
    have "cell p_CategoryId (snd (fst l)) = step_category T s"
      unfolding l by (simp add: step_category_def)
    with assms s show "length (filter (\<lambda>r. tc_CategoryId r = cell p_CategoryId (snd (fst l))) ?br) \<le> 1"
      by (simp add: bridge_rows_def)
  qed
  then have c4: "map fst (merge_left (\<lambda>x. cell p_CategoryId (snd (fst x))) tc_CategoryId ?c3 ?br) = ?c3"
    by (rule merge_left_fst_unique_on)
  have steps: "map fst (map fst (map fst ?c3)) = cur" by (simp add: comp_def)
  show ?thesis
    unfolding map_c5_step resolve_names_def names_rows_def Let_def c1 c2 c3
    by (simp only: merge_left_fst_unique [OF run] merge_left_fst_unique [OF drop_duplicates_unique]
        c4 steps)
qed

section \<open>Facts about the output\<close>

lemma sort_RunId_desc_present:
  assumes "\<forall>x\<in>set xs. l_RunId x \<noteq> None"
  shows "sort_RunId_desc xs = rev (sort_key (\<lambda>x. the (l_RunId x)) (rev xs))"
proof -
  from assms have "filter (\<lambda>x. l_RunId x \<noteq> None) xs = xs" "filter (\<lambda>x. l_RunId x = None) xs = []"
    by (simp_all add: filter_empty_conv)
  then show ?thesis by (simp add: sort_RunId_desc_def)
qed

lemma l_RunId_keep_cols: "l_RunId (keep_cols T str_strip x) = RunId (c5_step x)"
  by (simp add: keep_cols_def Let_def)

lemma batch_id_present: "l_RunId row = Some n \<Longrightarrow> batch_id (to_batch ts row) = n"
  by (simp add: to_batch_def)

lemma sorted_desc_ids:
  fixes f :: "'a \<Rightarrow> int"
  shows "sorted (rev (map f (rev (sort_key f xs))))"
  by (simp add: rev_map)

lemma sort_key_map_distinct:
  fixes f :: "'a \<Rightarrow> int"
  assumes "distinct (map f xs)" "sorted ks" "distinct ks" "set ks = f ` set xs"
  shows "map f (sort_key f (rev xs)) = ks"
proof (rule sorted_distinct_set_unique)
  show "sorted (map f (sort_key f (rev xs)))" by simp
  from assms(1) have "distinct xs" "inj_on f (set xs)" by (simp_all add: distinct_map)
  then show "distinct (map f (sort_key f (rev xs)))" by (simp add: distinct_map)
  show "sorted ks" by (rule assms)
  show "distinct ks" by (rule assms)
  show "set (map f (sort_key f (rev xs))) = set ks" using assms(4) by simp
qed

lemma current_location_Inr:
  assumes "current_location dt td str_strip T = Inr rows"
  shows "\<exists>cur. current_steps dt td T = Inr cur \<and>
           rows = sort_RunId_desc (map (keep_cols T str_strip) (resolve_names T cur))"
proof -
  from assms obtain u1 where
    r1: "and_then (joins_j T) (\<lambda>u.
     and_then (current_steps dt td T) (\<lambda>cur.
     and_then (resolve_current T cur) (\<lambda>c5.
     Inr (sort_RunId_desc (map (keep_cols T str_strip) c5))))) = Inr rows"
    unfolding current_location_def by (rule and_then_Inr)
  from r1 obtain u2 where
    r2: "and_then (current_steps dt td T) (\<lambda>cur.
     and_then (resolve_current T cur) (\<lambda>c5.
     Inr (sort_RunId_desc (map (keep_cols T str_strip) c5)))) = Inr rows"
    by (rule and_then_Inr)
  from r2 obtain cur where
    cur: "current_steps dt td T = Inr cur"
    and r3: "and_then (resolve_current T cur) (\<lambda>c5.
     Inr (sort_RunId_desc (map (keep_cols T str_strip) c5))) = Inr rows"
    by (rule and_then_Inr)
  from r3 obtain c5 where
    c5: "resolve_current T cur = Inr c5"
    and rows: "Inr (sort_RunId_desc (map (keep_cols T str_strip) c5)) = (Inr rows :: pyerr + location_row list)"
    by (rule and_then_Inr)
  from resolve_current_Inr [OF c5] rows cur show ?thesis by simp
qed

lemma batches_Inr:
  assumes "batches dt td ts str_strip T = Inr bs"
  shows "\<exists>rows. current_location dt td str_strip T = Inr rows \<and> bs = map (to_batch ts) rows"
  using assms by (auto simp: batches_def split: sum.splits)

lemma batches_runs:
  assumes "batches dt td ts str_strip T = Inr bs"
  shows "\<exists>cur rows. current_steps dt td T = Inr cur \<and>
          current_location dt td str_strip T = Inr rows \<and>
          bs = map (to_batch ts) rows \<and>
          sorted (rev (map batch_id bs)) \<and>
          set (map batch_id bs) = {k. \<exists>r\<in>set (rs T). RunId r = Some k} \<and>
          ((\<forall>s\<in>set cur. length (bridge_rows T (step_category T s)) \<le> 1)
             \<longrightarrow> map batch_id bs = rev (group_keys (rs T)))"
proof -
  let ?ks = "group_keys (rs T)"
  let ?f = "\<lambda>x. the (l_RunId x)"
  from batches_Inr [OF assms] obtain rows0 where
    cl: "current_location dt td str_strip T = Inr rows0" and bs: "bs = map (to_batch ts) rows0"
    by blast
  from current_location_Inr [OF cl] obtain cur where
    cs: "current_steps dt td T = Inr cur"
    and r0: "rows0 = sort_RunId_desc (map (keep_cols T str_strip) (resolve_names T cur))"
    by blast
  from current_steps_keys [OF cs] have cur: "map RunId cur = map Some ?ks" .
  let ?J = "resolve_names T cur"
  let ?L = "map (keep_cols T str_strip) ?J"
  let ?rows = "sort_RunId_desc ?L"
  have ids: "map l_RunId ?L = map RunId (map c5_step ?J)"
    by (simp add: l_RunId_keep_cols)
  have curset: "RunId ` set cur = Some ` set ?ks"
    using cur by (metis set_map)
  have "set (map l_RunId ?L) = Some ` set ?ks"
    unfolding ids using resolve_names_steps_set [of T cur] curset by (metis set_map)
  then have lset: "l_RunId ` set ?L = Some ` set ?ks" by (metis set_map)
  then have present: "\<forall>x\<in>set ?L. l_RunId x \<noteq> None" by (metis imageE imageI option.distinct(1))
  have fset: "?f ` set ?L = set ?ks"
  proof -
    have "?f ` set ?L = the ` (l_RunId ` set ?L)" by (simp add: image_image)
    also have "\<dots> = the ` Some ` set ?ks" by (simp only: lset)
    also have "\<dots> = set ?ks" by (simp add: image_image)
    finally show ?thesis .
  qed
  have rows: "?rows = rev (sort_key ?f (rev ?L))"
    using present by (rule sort_RunId_desc_present)
  have rowset: "set ?rows = set ?L" by (simp add: rows)
  have bid: "map batch_id (map (to_batch ts) ?rows) = map ?f ?rows"
  proof (simp only: map_map, rule map_cong [OF refl])
    fix x assume "x \<in> set ?rows"
    with rowset present obtain n where "l_RunId x = Some n" by auto
    then show "(batch_id \<circ> to_batch ts) x = the (l_RunId x)"
      by (simp add: batch_id_present)
  qed
  have bid': "map batch_id (map (to_batch ts) ?rows) = map ?f (rev (sort_key ?f (rev ?L)))"
    using bid by (simp only: rows)
  have srt: "sorted (rev (map batch_id (map (to_batch ts) ?rows)))"
    unfolding bid' by (rule sorted_desc_ids)
  have st: "set (map batch_id (map (to_batch ts) ?rows)) = {k. \<exists>r\<in>set (rs T). RunId r = Some k}"
    unfolding bid' using fset by (simp add: set_group_keys)
  have uniq: "map batch_id (map (to_batch ts) ?rows) = rev ?ks"
    if u: "\<forall>s\<in>set cur. length (bridge_rows T (step_category T s)) \<le> 1"
  proof -
    have "map c5_step ?J = cur" using u by (rule resolve_names_steps_single)
    with ids cur have "map l_RunId ?L = map Some ?ks" by simp
    then have "map the (map l_RunId ?L) = map the (map Some ?ks)" by simp
    then have mf: "map ?f ?L = ?ks" by (simp add: comp_def)
    then have "distinct (map ?f ?L)" by (simp add: distinct_group_keys)
    then have "map ?f (sort_key ?f (rev ?L)) = ?ks"
      using sorted_group_keys distinct_group_keys fset [symmetric]
      by (rule sort_key_map_distinct)
    then have "rev (map ?f (sort_key ?f (rev ?L))) = rev ?ks" by (simp only:)
    then show ?thesis unfolding bid' by (simp only: rev_map)
  qed
  from cs cl bs r0 srt st uniq show ?thesis by blast
qed

section \<open>Facts about the locator\<close>

lemma lower_Nil: "(lower s = []) = (s = [])"
  by (simp add: lower_def)

lemma endswith_nonempty: "endswith s t \<Longrightarrow> t \<noteq> [] \<Longrightarrow> s \<noteq> []"
  by (auto simp: endswith_def)

lemma pick_blob_nonempty:
  assumes "pick_blob_from_list all_blobs table = Some b"
  shows "b \<noteq> []"
proof -
  define leaf where "leaf = lower (table @ ''.parquet'')"
  define exact where
    "exact = filter (\<lambda>b. lower b = leaf \<or> endswith (lower b) (''/'' @ leaf)) all_blobs"
  define anymatch where "anymatch = filter (\<lambda>b. endswith (lower b) leaf) all_blobs"
  have leaf: "leaf \<noteq> []" by (simp add: leaf_def lower_def)
  have pick: "pick_blob_from_list all_blobs table =
      (if exact \<noteq> [] then Some (hd exact)
       else if anymatch \<noteq> [] then Some (hd anymatch) else None)"
    by (simp only: pick_blob_from_list_def Let_def leaf_def exact_def anymatch_def)
  have "b \<in> set exact \<or> b \<in> set anymatch"
  proof (cases "exact \<noteq> []")
    case True
    with pick assms have "b = hd exact" by simp
    with True show ?thesis by simp
  next
    case False
    show ?thesis
    proof (cases "anymatch \<noteq> []")
      case True
      with False pick assms have "b = hd anymatch" by simp
      with True show ?thesis by simp
    next
      case no: False
      with False pick assms show ?thesis by simp
    qed
  qed
  then have "lower b = leaf \<or> endswith (lower b) (''/'' @ leaf) \<or> endswith (lower b) leaf"
    unfolding exact_def anymatch_def by auto
  then have "lower b \<noteq> []"
  proof (elim disjE)
    assume "lower b = leaf"
    with leaf show ?thesis by simp
  next
    assume "endswith (lower b) (''/'' @ leaf)"
    then show ?thesis by (rule endswith_nonempty) simp
  next
    assume "endswith (lower b) leaf"
    then show ?thesis using leaf by (rule endswith_nonempty)
  qed
  then show ?thesis by (simp add: lower_Nil)
qed

lemma probe_member: "probe h g cs = Some c \<Longrightarrow> c \<in> set cs"
  by (induction cs) (auto split: if_splits)

lemma candidates_dict_nonempty: "\<forall>e\<in>set CANDIDATES_dict. [] \<notin> set (snd e)"
  by (simp add: CANDIDATES_dict_def)

lemma candidates_nonempty:
  assumes "c \<in> set (CANDIDATES table)"
  shows "c \<noteq> []"
proof (cases "map_of CANDIDATES_dict table")
  case None
  with assms show ?thesis by (simp add: CANDIDATES_def)
next
  case (Some cs)
  then have "(table, cs) \<in> set CANDIDATES_dict" by (rule map_of_SomeD)
  with candidates_dict_nonempty have "[] \<notin> set cs" by fastforce
  moreover from Some assms have "c \<in> set cs" by (simp add: CANDIDATES_def)
  ultimately show ?thesis by metis
qed

lemma falsy_locate:
  "falsy (locate blobs h g tbl) =
     ((blobs = [] \<or> pick_blob_from_list blobs tbl = None) \<and> guess_blob_for_table h g tbl = None)"
proof -
  have p: "\<not> falsy (pick_blob_from_list blobs tbl)" if "pick_blob_from_list blobs tbl \<noteq> None"
    using that pick_blob_nonempty by (auto simp: falsy_def)
  have "guess_blob_for_table h g tbl \<noteq> Some []"
  proof
    assume "guess_blob_for_table h g tbl = Some []"
    then have "[] \<in> set (CANDIDATES tbl)"
      unfolding guess_blob_for_table_def by (rule probe_member)
    then show False using candidates_nonempty by blast
  qed
  then have q: "falsy (guess_blob_for_table h g tbl) = (guess_blob_for_table h g tbl = None)"
    by (simp add: falsy_def)
  show ?thesis
  proof (cases "blobs = [] \<or> pick_blob_from_list blobs tbl = None")
    case True
    then have "locate blobs h g tbl = guess_blob_for_table h g tbl"
      by (auto simp: locate_def falsy_def)
    with True q show ?thesis by simp
  next
    case False
    then have "locate blobs h g tbl = pick_blob_from_list blobs tbl"
      using p by (simp add: locate_def)
    with False p show ?thesis by simp
  qed
qed

lemma select_tables_fails:
  assumes "\<exists>t\<in>set tbls. falsy (locate blobs h g t)"
  shows "\<exists>pre t post. tbls = pre @ t # post \<and> falsy (locate blobs h g t) \<and>
           (\<forall>u\<in>set pre. \<not> falsy (locate blobs h g u)) \<and>
           select_tables blobs h g tbls selected = Inl (''Missing remote parquet for table: '' @ t)"
  using assms
proof (induction tbls arbitrary: selected)
  case Nil
  then show ?case by simp
next
  case (Cons a tbls)
  show ?case
  proof (cases "falsy (locate blobs h g a)")
    case True
    then have "a # tbls = [] @ a # tbls \<and> falsy (locate blobs h g a) \<and>
           (\<forall>u\<in>set []. \<not> falsy (locate blobs h g u)) \<and>
           select_tables blobs h g (a # tbls) selected = Inl (''Missing remote parquet for table: '' @ a)"
      by simp
    then show ?thesis by blast
  next
    case False
    with Cons.prems have "\<exists>t\<in>set tbls. falsy (locate blobs h g t)" by auto
    from Cons.IH [OF this, of "selected(a \<mapsto> the (locate blobs h g a))"]
    obtain pre t post where
      h: "tbls = pre @ t # post" "falsy (locate blobs h g t)"
         "\<forall>u\<in>set pre. \<not> falsy (locate blobs h g u)"
         "select_tables blobs h g tbls (selected(a \<mapsto> the (locate blobs h g a)))
            = Inl (''Missing remote parquet for table: '' @ t)"
      by blast
    with False have "a # tbls = (a # pre) @ t # post \<and> falsy (locate blobs h g t) \<and>
           (\<forall>u\<in>set (a # pre). \<not> falsy (locate blobs h g u)) \<and>
           select_tables blobs h g (a # tbls) selected = Inl (''Missing remote parquet for table: '' @ t)"
      by simp
    then show ?thesis by blast
  qed
qed

section \<open>Classification of a step\<close>

text \<open>
  C3. Every step is given exactly one of the three statuses: Completed exactly when the finish
  instant is present, In Progress exactly when the start is present and the finish absent,
  Not Started exactly when both are absent. The status of every row is the classification
  of the row's own two instants.
\<close>

theorem status_three_way:
  "(status_of s f = Some ''Completed'') = (f \<noteq> None) \<and>
   (status_of s f = Some ''In Progress'') = (s \<noteq> None \<and> f = None) \<and>
   (status_of s f = Some ''Not Started'') = (s = None \<and> f = None) \<and>
   status (with_status r s f) = status_of (started_at (with_status r s f))
                                          (finished_at (with_status r s f)) \<and>
   (add_status dt td cols r = Inr row \<longrightarrow>
      status row = status_of (started_at row) (finished_at row))"
proof -
  have "status row = status_of (started_at row) (finished_at row)"
    if "add_status dt td cols r = Inr row"
    using that
    by (auto simp: add_status_def with_status_def run_step_row.extend_def
        split: if_splits sum.splits)
  then show ?thesis
    by (simp add: status_of_def with_status_def run_step_row.extend_def)
qed

text \<open>
  A step with a finish date and time and no start: it is Completed, its start has no value
  and its finish is the combined instant.
\<close>

theorem status_three_way_witness:
  "add_status sample_to_datetime sample_to_timedelta
     [''RunId'', ''StartDate'', ''FinishDate'', ''FinishTime'']
     ((bare_step 101 10) \<lparr>FinishDate := Some ''2024-01-05'', FinishTime := Some ''10:00:00''\<rparr>)
   = Inr (with_status
            ((bare_step 101 10) \<lparr>FinishDate := Some ''2024-01-05'', FinishTime := Some ''10:00:00''\<rparr>)
            None (Some 1704448800000000000)) \<and>
   status (with_status
            ((bare_step 101 10) \<lparr>FinishDate := Some ''2024-01-05'', FinishTime := Some ''10:00:00''\<rparr>)
            None (Some 1704448800000000000)) = Some ''Completed''"
proof -
  let ?r = "(bare_step 101 10) \<lparr>FinishDate := Some ''2024-01-05'', FinishTime := Some ''10:00:00''\<rparr>"
  let ?row = "with_status ?r None (Some 1704448800000000000)"
  have a: "add_status sample_to_datetime sample_to_timedelta
             [''RunId'', ''StartDate'', ''FinishDate'', ''FinishTime''] ?r = Inr ?row"
    by code_simp
  from status_three_way [of None "Some 1704448800000000000" ?r sample_to_datetime
      sample_to_timedelta "[''RunId'', ''StartDate'', ''FinishDate'', ''FinishTime'']" ?row] a
  have "status ?row = status_of (started_at ?row) (finished_at ?row)" by blast
  moreover have "status_of (started_at ?row) (finished_at ?row) = Some ''Completed''"
    by (simp add: with_status_def run_step_row.extend_def status_of_def)
  ultimately show ?thesis using a by simp
qed

section \<open>The tie-break ladder\<close>

text \<open>
  C1 (as amended). On a non-empty group whose index labels are distinct, \<^verbatim>\<open>_pick_current\<close>
  returns exactly one row of the group and raises nothing. The first applicable rule decides:
  (1) if some row has an \<open>updated_at\<close>, the selected row has the greatest \<open>updated_at\<close>;
  (2) else, if an ordinal column is carried, the selected row is the last row of the stable
  ascending sort on the carried ordinal columns, in which a missing ordinal comes after every
  number: its key is the greatest, its leading ordinal is missing or at least every other, and
  among the rows with that key it is the last in the original order;
  (3) else, if Sequence is carried and somewhere present, the selected row has the greatest
  Sequence; (4) else the last row of the group is selected.
\<close>

theorem pick_current_ladder:
  assumes "g \<noteq> []" and "distinct (map fst g)"
  shows "\<exists>p. pick_current columns g = Inr [p] \<and> p \<in> set g \<and>
     (if list_ex (\<lambda>q. updated_at (snd q) \<noteq> None) g
      then \<exists>m. updated_at (snd p) = Some m \<and>
               (\<forall>q\<in>set g. \<forall>v. updated_at (snd q) = Some v \<longrightarrow> v \<le> m)
      else if ordinal_columns columns \<noteq> []
      then (\<forall>q\<in>set g. sort_key_of (ordinal_columns columns) q \<le> sort_key_of (ordinal_columns columns) p) \<and>
           (\<forall>q\<in>set g. na_last (ordinal (hd (ordinal_columns columns)) (snd q))
                         \<le> na_last (ordinal (hd (ordinal_columns columns)) (snd p))) \<and>
           p = last (filter (\<lambda>q. sort_key_of (ordinal_columns columns) q
                                  = sort_key_of (ordinal_columns columns) p) g)
      else if ''Sequence'' \<in> set columns \<and> list_ex (\<lambda>q. Sequence (snd q) \<noteq> None) g
      then \<exists>m. Sequence (snd p) = Some m \<and>
               (\<forall>q\<in>set g. \<forall>v. Sequence (snd q) = Some v \<longrightarrow> v \<le> m)
      else p = last g)"
  using assms by (rule pick_current_cases)

text \<open>
  The scenario of run 202: two steps without instants, ordinals 3 and 7; the step with
  ordinal 7 is selected.
\<close>

theorem pick_current_ladder_witness:
  "[(0, step 202 None (Some 3) None None None), (1, step 202 None (Some 7) None None None)] \<noteq> [] \<and>
   distinct (map fst [(0::nat, step 202 None (Some 3) None None None),
                      (1, step 202 None (Some 7) None None None)]) \<and>
   pick_current [''RunId'', ''ProcessModuleId'', ''__batch_index'']
     [(0, step 202 None (Some 3) None None None), (1, step 202 None (Some 7) None None None)]
   = Inr [(1, step 202 None (Some 7) None None None)]"
proof -
  let ?g = "[(0::nat, step 202 None (Some 3) None None None),
             (1, step 202 None (Some 7) None None None)]"
  let ?cols = "[''RunId'', ''ProcessModuleId'', ''__batch_index'']"
  have h1: "?g \<noteq> []" by simp
  have h2: "distinct (map fst ?g)" by simp
  from pick_current_ladder [OF h1 h2, of ?cols] obtain p where
    p: "pick_current ?cols ?g = Inr [p]" "p \<in> set ?g"
    by blast
  have "pick_current ?cols ?g = Inr [(1, step 202 None (Some 7) None None None)]"
    by (simp add: pick_current_def ordinal_columns_def step_def row_max_def status_of_def
        sort_values_def sort_key_of_def iloc_last_def na_last_def ordinal_def)
  with h1 h2 p show ?thesis by simp
qed

text \<open>
  Where an ordinal is missing, rule (2) does not select the row with the highest ordinal: of
  two steps with ordinals 7 and missing, the step without an ordinal is selected.
\<close>

theorem pick_current_missing_ordinal:
  "pick_current [''RunId'', ''ProcessModuleId'', ''__batch_index'']
     [(0, step 202 None (Some 7) None None None), (1, step 202 None None None None None)]
   = Inr [(1, step 202 None None None None None)] \<and>
   batch_index (step 202 None (Some 7) None None None) = Some 7 \<and>
   batch_index (step 202 None None None None None) = None"
  by (simp add: pick_current_def ordinal_columns_def step_def row_max_def status_of_def
      sort_values_def sort_key_of_def iloc_last_def na_last_def ordinal_def)

text \<open>
  C10. Ties are broken by position: when several rows share the greatest \<open>updated_at\<close>
  (rule 1) or the greatest Sequence (rule 3), the first of them in the group's row order
  is the one selected.
\<close>

theorem pick_current_first_of_ties:
  assumes "distinct (map fst g)"
  shows "(list_ex (\<lambda>q. updated_at (snd q) \<noteq> None) g \<longrightarrow>
            (\<exists>pre p post m. g = pre @ p # post \<and> pick_current columns g = Inr [p] \<and>
               updated_at (snd p) = Some m \<and>
               (\<forall>q\<in>set g. \<forall>v. updated_at (snd q) = Some v \<longrightarrow> v \<le> m) \<and>
               (\<forall>q\<in>set pre. updated_at (snd q) \<noteq> Some m))) \<and>
         (\<not> list_ex (\<lambda>q. updated_at (snd q) \<noteq> None) g \<and> ordinal_columns columns = [] \<and>
          ''Sequence'' \<in> set columns \<and> list_ex (\<lambda>q. Sequence (snd q) \<noteq> None) g \<longrightarrow>
            (\<exists>pre p post m. g = pre @ p # post \<and> pick_current columns g = Inr [p] \<and>
               Sequence (snd p) = Some m \<and>
               (\<forall>q\<in>set g. \<forall>v. Sequence (snd q) = Some v \<longrightarrow> v \<le> m) \<and>
               (\<forall>q\<in>set pre. Sequence (snd q) \<noteq> Some m)))"
proof (intro conjI impI)
  assume upd: "list_ex (\<lambda>q. updated_at (snd q) \<noteq> None) g"
  then have "pick_current columns g =
      (case idxmax updated_at g of None \<Rightarrow> Inl ValueError | Some l \<Rightarrow> Inr (loc g l))"
    by (simp add: pick_current_def)
  with pick_by_idxmax [OF upd assms]
  show "\<exists>pre p post m. g = pre @ p # post \<and> pick_current columns g = Inr [p] \<and>
          updated_at (snd p) = Some m \<and>
          (\<forall>q\<in>set g. \<forall>v. updated_at (snd q) = Some v \<longrightarrow> v \<le> m) \<and>
          (\<forall>q\<in>set pre. updated_at (snd q) \<noteq> Some m)"
    by simp
next
  assume h: "\<not> list_ex (\<lambda>q. updated_at (snd q) \<noteq> None) g \<and> ordinal_columns columns = [] \<and>
             ''Sequence'' \<in> set columns \<and> list_ex (\<lambda>q. Sequence (snd q) \<noteq> None) g"
  then have ex: "list_ex (\<lambda>q. Sequence (snd q) \<noteq> None) g" by simp
  from h have "pick_current columns g =
      (case idxmax Sequence g of None \<Rightarrow> Inl ValueError | Some l \<Rightarrow> Inr (loc g l))"
    by (simp add: pick_current_def)
  with pick_by_idxmax [OF ex assms]
  show "\<exists>pre p post m. g = pre @ p # post \<and> pick_current columns g = Inr [p] \<and>
          Sequence (snd p) = Some m \<and>
          (\<forall>q\<in>set g. \<forall>v. Sequence (snd q) = Some v \<longrightarrow> v \<le> m) \<and>
          (\<forall>q\<in>set pre. Sequence (snd q) \<noteq> Some m)"
    by simp
qed

text \<open>
  Three steps, the last two sharing the greatest finish instant: the second is selected.
  Three steps without instants or ordinals, the last two sharing Sequence 4: the second is
  selected.
\<close>

theorem pick_current_first_of_ties_witness:
  "distinct (map fst [(0::nat, step 7 None None None None (Some 5)),
                      (1, step 7 None None None None (Some 9)),
                      (2, step 7 None None None (Some 2) (Some 9))]) \<and>
   list_ex (\<lambda>q. updated_at (snd q) \<noteq> None)
     [(0::nat, step 7 None None None None (Some 5)),
      (1, step 7 None None None None (Some 9)),
      (2, step 7 None None None (Some 2) (Some 9))] \<and>
   pick_current [''RunId'', ''Sequence'']
     [(0, step 7 None None None None (Some 5)),
      (1, step 7 None None None None (Some 9)),
      (2, step 7 None None None (Some 2) (Some 9))]
   = Inr [(1, step 7 None None None None (Some 9))] \<and>
   pick_current [''RunId'', ''Sequence'']
     [(0, step 7 (Some 1) None None None None),
      (1, step 7 (Some 4) None None None None),
      (2, step 7 (Some 4) None None None None)]
   = Inr [(1, step 7 (Some 4) None None None None)]"
proof -
  let ?g = "[(0::nat, step 7 None None None None (Some 5)),
             (1, step 7 None None None None (Some 9)),
             (2, step 7 None None None (Some 2) (Some 9))]"
  let ?cols = "[''RunId'', ''Sequence'']"
  have h: "distinct (map fst ?g)" by simp
  have u: "list_ex (\<lambda>q. updated_at (snd q) \<noteq> None) ?g"
    by (simp add: step_def row_max_def)
  from pick_current_first_of_ties [OF h, of ?cols] u obtain p where
    "pick_current ?cols ?g = Inr [p]"
    by blast
  have e1: "pick_current ?cols ?g = Inr [(1, step 7 None None None None (Some 9))]"
    by (simp add: pick_current_def step_def row_max_def status_of_def idxmax_def loc_def
        List.map_filter_simps)
  have e2: "pick_current ?cols
     [(0, step 7 (Some 1) None None None None),
      (1, step 7 (Some 4) None None None None),
      (2, step 7 (Some 4) None None None None)]
   = Inr [(1, step 7 (Some 4) None None None None)]"
    by (simp add: pick_current_def ordinal_columns_def step_def row_max_def status_of_def
        idxmax_def loc_def List.map_filter_simps)
  from h u e1 e2 show ?thesis by simp
qed

section \<open>The representative process module\<close>

text \<open>
  C4. For every Id that occurs in the process-module table, deduplication keeps exactly one
  row with that Id. It is the first row, in the original order, with that Id and a present
  ProcessId if there is one, and the first row with that Id otherwise. The representative is
  a function of the table, so the same table always gives the same choice.
\<close>

theorem pm_by_module_representative:
  assumes "r \<in> set pm_raw"
  shows "\<exists>rep. filter (\<lambda>x. Id x = Id r) (pm_by_module pm_raw) = [rep] \<and>
         (if list_ex (\<lambda>x. Id x = Id r \<and> ProcessId x \<noteq> None) pm_raw
          then find (\<lambda>x. Id x = Id r \<and> ProcessId x \<noteq> None) pm_raw = Some rep
          else find (\<lambda>x. Id x = Id r) pm_raw = Some rep)"
proof -
  let ?k = "Id r"
  let ?ys = "filter (\<lambda>x. Id x = ?k) pm_raw"
  let ?rep = "hd (sort_key pm_sort_key ?ys)"
  have ne: "?ys \<noteq> []" using assms by (auto simp: filter_empty_conv)
  then have sne: "sort_key pm_sort_key ?ys \<noteq> []" by (metis length_sort length_0_conv)
  have "filter (\<lambda>x. Id x = ?k) (sort_key pm_sort_key pm_raw) = sort_key pm_sort_key ?ys"
    by (rule filter_sort)
  then have one: "filter (\<lambda>x. Id x = ?k) (pm_by_module pm_raw) = [?rep]"
    using sne by (simp add: pm_by_module_def filter_drop_duplicates split: list.splits)
  from hd_sort_key_min [OF ne, of pm_sort_key] have
    mem: "?rep \<in> set ?ys" and lb: "\<forall>y\<in>set ?ys. pm_sort_key ?rep \<le> pm_sort_key y"
    and fne: "filter (\<lambda>y. pm_sort_key y = pm_sort_key ?rep) ?ys \<noteq> []"
    and hd: "?rep = hd (filter (\<lambda>y. pm_sort_key y = pm_sort_key ?rep) ?ys)"
    by blast+
  have idr: "Id ?rep = ?k" using mem by simp
  have keq: "\<And>y. Id y = ?k \<Longrightarrow> (pm_sort_key y = pm_sort_key ?rep) = (score y = score ?rep)"
    using idr by (simp add: pm_sort_key_def)
  have kle: "\<And>y. y \<in> set ?ys \<Longrightarrow> score y \<le> score ?rep"
    using lb idr by (auto simp: pm_sort_key_def less_eq_prod_def)
  have same: "filter (\<lambda>y. pm_sort_key y = pm_sort_key ?rep) ?ys
              = filter (\<lambda>x. Id x = ?k \<and> score x = score ?rep) pm_raw"
    using keq by (auto simp: conj_commute intro: filter_cong)
  show ?thesis
  proof (cases "list_ex (\<lambda>x. Id x = ?k \<and> ProcessId x \<noteq> None) pm_raw")
    case True
    then obtain x where "x \<in> set ?ys" "score x = 1"
      by (auto simp: list_ex_iff score_def)
    with kle [of x] have "score ?rep = 1" by (auto simp: score_def split: if_splits)
    then have "filter (\<lambda>x. Id x = ?k \<and> score x = score ?rep) pm_raw
               = filter (\<lambda>x. Id x = ?k \<and> ProcessId x \<noteq> None) pm_raw"
      by (auto simp: score_def intro: filter_cong)
    with same hd fne have "find (\<lambda>x. Id x = ?k \<and> ProcessId x \<noteq> None) pm_raw = Some ?rep"
      by (simp add: find_filter_hd split: list.splits)
    with one True show ?thesis by (intro exI [of _ ?rep]) simp
  next
    case False
    then have "\<forall>y\<in>set ?ys. score y = 0" by (auto simp: list_ex_iff score_def)
    with mem have "\<forall>y\<in>set ?ys. score y = score ?rep" by simp
    then have "filter (\<lambda>x. Id x = ?k \<and> score x = score ?rep) pm_raw = ?ys"
      by (auto intro: filter_cong)
    with same hd ne have "find (\<lambda>x. Id x = ?k) pm_raw = Some ?rep"
      by (simp add: find_filter_hd split: list.splits)
    with one False show ?thesis by (intro exI [of _ ?rep]) simp
  qed
qed

text \<open>
  Two rows with Id 50, the first without ProcessId, the second with ProcessId 9: the
  representative is the second.
\<close>

theorem pm_by_module_representative_witness:
  "\<lparr>Id = Some 50, ProcessId = None, ModuleId = Some 1\<rparr>
     \<in> set [\<lparr>Id = Some 50, ProcessId = None, ModuleId = Some 1\<rparr>,
             \<lparr>Id = Some 50, ProcessId = Some 9, ModuleId = Some 2\<rparr>] \<and>
   pm_by_module [\<lparr>Id = Some 50, ProcessId = None, ModuleId = Some 1\<rparr>,
                 \<lparr>Id = Some 50, ProcessId = Some 9, ModuleId = Some 2\<rparr>]
     = [\<lparr>Id = Some 50, ProcessId = Some 9, ModuleId = Some 2\<rparr>]"
proof -
  let ?a = "\<lparr>Id = Some 50, ProcessId = None, ModuleId = Some 1\<rparr>"
  let ?b = "\<lparr>Id = Some 50, ProcessId = Some 9, ModuleId = Some 2\<rparr>"
  have h: "?a \<in> set [?a, ?b]" by simp
  from pm_by_module_representative [OF h] obtain rep where
    "filter (\<lambda>x. Id x = Id ?a) (pm_by_module [?a, ?b]) = [rep]"
    by blast
  have "pm_by_module [?a, ?b] = [?b]"
    by (simp add: pm_by_module_def pm_sort_key_def score_def na_last_def)
  with h show ?thesis by simp
qed

section \<open>One record per run\<close>

text \<open>
  C2 (as amended). Whenever the pipeline returns records, their RunIds are exactly the
  RunIds that occur in a row of the run steps, whether or not the run table has a row for
  them: a run without steps has no record. When the category of no current step has more
  than one row in the bridge table between categories and types, every such RunId has
  exactly one record, and the records come in descending order of RunId.
\<close>

theorem batches_one_record_per_step_run:
  assumes "batches dt td ts str_strip T = Inr bs"
  shows "set (map batch_id bs) = {k. \<exists>r\<in>set (rs T). RunId r = Some k} \<and>
         (\<exists>cur. current_steps dt td T = Inr cur \<and>
            ((\<forall>s\<in>set cur. length (bridge_rows T (step_category T s)) \<le> 1)
               \<longrightarrow> map batch_id bs = rev (group_keys (rs T)) \<and> distinct (map batch_id bs)))"
proof -
  from batches_runs [OF assms] obtain cur where
    c: "current_steps dt td T = Inr cur"
    and s: "set (map batch_id bs) = {k. \<exists>r\<in>set (rs T). RunId r = Some k}"
    and u: "(\<forall>s\<in>set cur. length (bridge_rows T (step_category T s)) \<le> 1)
             \<longrightarrow> map batch_id bs = rev (group_keys (rs T))"
    by blast
  have "distinct (rev (group_keys (rs T)))" by (simp add: distinct_group_keys)
  with c s u show ?thesis by (intro conjI exI [of _ cur]) simp_all
qed

text \<open>
  Two runs, three steps. Category 4 has two rows in the bridge table, but the category of
  both current steps is category 3, which has one: there is one record for run 2, then one
  for run 1.
\<close>

theorem batches_one_record_per_step_run_witness:
  "map_sum id (map (\<lambda>s. length
       (bridge_rows
          (bridged_tables [\<lparr>TypeId = Some 1, tc_CategoryId = Some 3\<rparr>,
                           \<lparr>TypeId = Some 1, tc_CategoryId = Some 4\<rparr>,
                           \<lparr>TypeId = Some 2, tc_CategoryId = Some 4\<rparr>])
          (step_category
             (bridged_tables [\<lparr>TypeId = Some 1, tc_CategoryId = Some 3\<rparr>,
                              \<lparr>TypeId = Some 1, tc_CategoryId = Some 4\<rparr>,
                              \<lparr>TypeId = Some 2, tc_CategoryId = Some 4\<rparr>]) s))))
     (current_steps (\<lambda>d. None) (\<lambda>t. None)
        (bridged_tables [\<lparr>TypeId = Some 1, tc_CategoryId = Some 3\<rparr>,
                         \<lparr>TypeId = Some 1, tc_CategoryId = Some 4\<rparr>,
                         \<lparr>TypeId = Some 2, tc_CategoryId = Some 4\<rparr>])) = Inr [1, 1] \<and>
   group_keys (rs (bridged_tables [\<lparr>TypeId = Some 1, tc_CategoryId = Some 3\<rparr>,
                                   \<lparr>TypeId = Some 1, tc_CategoryId = Some 4\<rparr>,
                                   \<lparr>TypeId = Some 2, tc_CategoryId = Some 4\<rparr>])) = [1, 2] \<and>
   map_sum id (map batch_id)
     (batches (\<lambda>d. None) (\<lambda>t. None) (\<lambda>i. ''t'') (\<lambda>s. s)
        (bridged_tables [\<lparr>TypeId = Some 1, tc_CategoryId = Some 3\<rparr>,
                         \<lparr>TypeId = Some 1, tc_CategoryId = Some 4\<rparr>,
                         \<lparr>TypeId = Some 2, tc_CategoryId = Some 4\<rparr>])) = Inr [2, 1]"
proof -
  let ?T = "bridged_tables [\<lparr>TypeId = Some 1, tc_CategoryId = Some 3\<rparr>,
                            \<lparr>TypeId = Some 1, tc_CategoryId = Some 4\<rparr>,
                            \<lparr>TypeId = Some 2, tc_CategoryId = Some 4\<rparr>]"
  let ?bs = "[\<lparr>batch_id = 2, batch_number = ''B-2'', batch_name = ''second'',
               batch_status = '''', motivation = '''', process_name = ''Etch'',
               category_name = ''Wet'', process_type_name = ''Front'',
               process_status = ''Not Started'', batch_started_at = '''',
               batch_finished_at = ''''\<rparr>,
              \<lparr>batch_id = 1, batch_number = ''B-1'', batch_name = ''Unknown'',
               batch_status = ''Open'', motivation = ''trial'',
               process_name = ''Etch'', category_name = ''Wet'',
               process_type_name = ''Front'', process_status = ''Not Started'',
               batch_started_at = '''', batch_finished_at = ''''\<rparr>]"
  have b: "batches (\<lambda>d. None) (\<lambda>t. None) (\<lambda>i. ''t'') (\<lambda>s. s) ?T = Inr ?bs"
    by code_simp
  have l: "map_sum id (map (\<lambda>s. length (bridge_rows ?T (step_category ?T s))))
             (current_steps (\<lambda>d. None) (\<lambda>t. None) ?T) = Inr [1, 1]"
    by code_simp
  have k: "group_keys (rs ?T) = [1, 2]" by code_simp
  from batches_one_record_per_step_run [OF b] obtain cur where
    c: "current_steps (\<lambda>d. None) (\<lambda>t. None) ?T = Inr cur"
    and u: "(\<forall>s\<in>set cur. length (bridge_rows ?T (step_category ?T s)) \<le> 1)
             \<longrightarrow> map batch_id ?bs = rev (group_keys (rs ?T))"
    by blast
  from l c have "map (\<lambda>s. length (bridge_rows ?T (step_category ?T s))) cur = [1, 1]"
    by simp
  then have "\<forall>n\<in>set (map (\<lambda>s. length (bridge_rows ?T (step_category ?T s))) cur). n \<le> 1"
    by simp
  then have "\<forall>s\<in>set cur. length (bridge_rows ?T (step_category ?T s)) \<le> 1"
    by simp
  with u k have "map batch_id ?bs = [2, 1]" by simp
  with b have "map_sum id (map batch_id)
      (batches (\<lambda>d. None) (\<lambda>t. None) (\<lambda>i. ''t'') (\<lambda>s. s) ?T) = Inr [2, 1]"
    by simp
  with l k show ?thesis by simp
qed

text \<open>
  The claim as stated fails twice. With an empty run table and one step of run 1, the output
  has a record for run 1, a run that is not in the run table. With the category of the
  current steps bridged to two types, each run has two records.
\<close>

theorem batches_not_one_per_run_of_run_table:
  "run orphan_tables = [] \<and>
   map_sum id (map batch_id)
     (batches (\<lambda>d. None) (\<lambda>t. None) (\<lambda>i. ''t'') (\<lambda>s. s) orphan_tables) = Inr [1] \<and>
   map_sum id (map batch_id)
     (batches (\<lambda>d. None) (\<lambda>t. None) (\<lambda>i. ''t'') (\<lambda>s. s)
        (bridged_tables [\<lparr>TypeId = Some 1, tc_CategoryId = Some 3\<rparr>,
                         \<lparr>TypeId = Some 2, tc_CategoryId = Some 3\<rparr>])) = Inr [2, 2, 1, 1]"
proof (intro conjI)
  show "run orphan_tables = []" by (simp add: orphan_tables_def empty_tables_def)
  show "map_sum id (map batch_id)
     (batches (\<lambda>d. None) (\<lambda>t. None) (\<lambda>i. ''t'') (\<lambda>s. s) orphan_tables) = Inr [1]"
    by code_simp
  show "map_sum id (map batch_id)
     (batches (\<lambda>d. None) (\<lambda>t. None) (\<lambda>i. ''t'') (\<lambda>s. s)
        (bridged_tables [\<lparr>TypeId = Some 1, tc_CategoryId = Some 3\<rparr>,
                         \<lparr>TypeId = Some 2, tc_CategoryId = Some 3\<rparr>])) = Inr [2, 2, 1, 1]"
    by code_simp
qed

section \<open>Normalised and sorted records\<close>

text \<open>
  C9 (as amended). Whenever the pipeline returns records, they are the projected rows of
  the current location, in descending order of RunId. In every record a missing value is
  the empty string for the batch number, the batch status, the motivation, the process
  name, the category name, the process-type name, started-at and finished-at; it is the
  string Unknown for the batch name and for the step status; and it is zero for the batch
  identifier.
\<close>

theorem batches_normalised_sorted:
  assumes "batches dt td ts str_strip T = Inr bs"
  shows "sorted (rev (map batch_id bs)) \<and>
   (\<exists>rows. current_location dt td str_strip T = Inr rows \<and> bs = map (to_batch ts) rows) \<and>
   (l_RunId row = None \<longrightarrow> batch_id (to_batch ts row) = 0) \<and>
   (l_Label row = None \<longrightarrow> batch_number (to_batch ts row) = '''') \<and>
   (l_RunName row = None \<longrightarrow> batch_name (to_batch ts row) = ''Unknown'') \<and>
   (l_Status row = None \<longrightarrow> batch_status (to_batch ts row) = '''') \<and>
   (l_MotivationText row = None \<longrightarrow> motivation (to_batch ts row) = '''') \<and>
   (l_ProcessName row = None \<longrightarrow> process_name (to_batch ts row) = '''') \<and>
   (l_CategoryName row = None \<longrightarrow> category_name (to_batch ts row) = '''') \<and>
   (l_ProcessTypeName row = None \<longrightarrow> process_type_name (to_batch ts row) = '''') \<and>
   (l_status row = None \<longrightarrow> process_status (to_batch ts row) = ''Unknown'') \<and>
   (l_started_at row = None \<longrightarrow> batch_started_at (to_batch ts row) = '''') \<and>
   (l_finished_at row = None \<longrightarrow> batch_finished_at (to_batch ts row) = '''')"
proof -
  from batches_runs [OF assms] have
    "sorted (rev (map batch_id bs))"
    "\<exists>rows. current_location dt td str_strip T = Inr rows \<and> bs = map (to_batch ts) rows"
    by blast+
  then show ?thesis by (simp add: to_batch_def str_or_def)
qed

text \<open>
  Run 1 has a label and a status but no name, run 2 a name but no status: the records come
  as run 2, run 1; the missing status is empty and the missing name is Unknown.
\<close>

theorem batches_normalised_sorted_witness:
  "batches (\<lambda>d. None) (\<lambda>t. None) (\<lambda>i. ''t'') (\<lambda>s. s)
     (bridged_tables [\<lparr>TypeId = Some 1, tc_CategoryId = Some 3\<rparr>])
   = Inr [\<lparr>batch_id = 2, batch_number = ''B-2'', batch_name = ''second'',
            batch_status = '''', motivation = '''', process_name = ''Etch'',
            category_name = ''Wet'', process_type_name = ''Front'',
            process_status = ''Not Started'', batch_started_at = '''',
            batch_finished_at = ''''\<rparr>,
          \<lparr>batch_id = 1, batch_number = ''B-1'', batch_name = ''Unknown'',
            batch_status = ''Open'', motivation = ''trial'',
            process_name = ''Etch'', category_name = ''Wet'',
            process_type_name = ''Front'', process_status = ''Not Started'',
            batch_started_at = '''', batch_finished_at = ''''\<rparr>] \<and>
   sorted (rev [2, 1 :: int])"
proof -
  let ?T = "bridged_tables [\<lparr>TypeId = Some 1, tc_CategoryId = Some 3\<rparr>]"
  let ?bs = "[\<lparr>batch_id = 2, batch_number = ''B-2'', batch_name = ''second'',
               batch_status = '''', motivation = '''', process_name = ''Etch'',
               category_name = ''Wet'', process_type_name = ''Front'',
               process_status = ''Not Started'', batch_started_at = '''',
               batch_finished_at = ''''\<rparr>,
              \<lparr>batch_id = 1, batch_number = ''B-1'', batch_name = ''Unknown'',
               batch_status = ''Open'', motivation = ''trial'',
               process_name = ''Etch'', category_name = ''Wet'',
               process_type_name = ''Front'', process_status = ''Not Started'',
               batch_started_at = '''', batch_finished_at = ''''\<rparr>]"
  have b: "batches (\<lambda>d. None) (\<lambda>t. None) (\<lambda>i. ''t'') (\<lambda>s. s) ?T = Inr ?bs"
    by code_simp
  from batches_normalised_sorted [OF b] have "sorted (rev (map batch_id ?bs))" by blast
  then have "sorted (rev [2, 1 :: int])" by simp
  with b show ?thesis by simp
qed

text \<open>
  A missing batch name is not the empty string: run 1 of the example has no name and its
  record carries the name Unknown.
\<close>

theorem batch_name_missing_is_unknown:
  "map_sum id (map batch_name)
     (batches (\<lambda>d. None) (\<lambda>t. None) (\<lambda>i. ''t'') (\<lambda>s. s)
        (bridged_tables [\<lparr>TypeId = Some 1, tc_CategoryId = Some 3\<rparr>]))
   = Inr [''second'', ''Unknown'']"
  by code_simp

section \<open>Discovery failure\<close>

text \<open>
  C5. If for one of the seven needed tables neither the listing nor the probes of its
  candidate paths resolve a file, the invocation returns the failure payload whose message
  names a needed table that could not be located (the first such table in sorted order).
  The result is the same whatever the reader would deliver: no table is read, and the
  payload carries no records.
\<close>

theorem discovery_failure_is_fatal:
  assumes "tbl \<in> set NEEDED"
    and "blobs = [] \<or> pick_blob_from_list blobs tbl = None"
    and "guess_blob_for_table head_status get_status tbl = None"
  shows "\<exists>t. t \<in> set NEEDED \<and>
           (blobs = [] \<or> pick_blob_from_list blobs t = None) \<and>
           guess_blob_for_table head_status get_status t = None \<and>
           (\<forall>load dt td ts str_strip.
              get_current_batch_location blobs head_status get_status load dt td ts str_strip
                = Failure (''Missing remote parquet for table: '' @ t))"
proof -
  from assms have "\<exists>t\<in>set (sort NEEDED). falsy (locate blobs head_status get_status t)"
    by (auto simp: falsy_locate)
  from select_tables_fails [OF this, of Map.empty] obtain pre t post where
    t: "sort NEEDED = pre @ t # post" "falsy (locate blobs head_status get_status t)"
       "select_tables blobs head_status get_status (sort NEEDED) Map.empty
          = Inl (''Missing remote parquet for table: '' @ t)"
    by blast
  from t(1) have "t \<in> set (sort NEEDED)" by simp
  then have mem: "t \<in> set NEEDED" by simp
  from t(2) have nf: "(blobs = [] \<or> pick_blob_from_list blobs t = None) \<and>
      guess_blob_for_table head_status get_status t = None"
    by (simp add: falsy_locate)
  from t(3) have "\<forall>load dt td ts str_strip.
      get_current_batch_location blobs head_status get_status load dt td ts str_strip
        = Failure (''Missing remote parquet for table: '' @ t)"
    by (simp add: get_current_batch_location_def)
  with mem nf show ?thesis by blast
qed

text \<open>
  With an empty listing and every probe answered 404, the run table cannot be located, and
  the invocation fails naming the first needed table in sorted order.
\<close>

theorem discovery_failure_is_fatal_witness:
  "''run'' \<in> set NEEDED \<and>
   guess_blob_for_table (\<lambda>c. 404) (\<lambda>c. 404) ''run'' = None \<and>
   get_current_batch_location [] (\<lambda>c. 404) (\<lambda>c. 404) (\<lambda>s. orphan_tables)
     (\<lambda>d. None) (\<lambda>t. None) (\<lambda>i. ''t'') (\<lambda>s. s)
     = Failure ''Missing remote parquet for table: process''"
proof -
  have h1: "''run'' \<in> set NEEDED" by (simp add: NEEDED_def)
  have h2: "[] = [] \<or> pick_blob_from_list [] ''run'' = None" by simp
  have h3: "guess_blob_for_table (\<lambda>c. 404) (\<lambda>c. 404) ''run'' = None" by code_simp
  from discovery_failure_is_fatal [OF h1 h2 h3] obtain t where
    "get_current_batch_location [] (\<lambda>c. 404) (\<lambda>c. 404) (\<lambda>s. orphan_tables)
       (\<lambda>d. None) (\<lambda>t. None) (\<lambda>i. ''t'') (\<lambda>s. s)
     = Failure (''Missing remote parquet for table: '' @ t)"
    by blast
  have "get_current_batch_location [] (\<lambda>c. 404) (\<lambda>c. 404) (\<lambda>s. orphan_tables)
     (\<lambda>d. None) (\<lambda>t. None) (\<lambda>i. ''t'') (\<lambda>s. s)
     = Failure ''Missing remote parquet for table: process''"
    by code_simp
  with h1 h3 show ?thesis by simp
qed

section \<open>Failures of the reader\<close>

text \<open>
  C6. When the download gives nothing, or any step of reading or parsing raises, the reader
  raises nothing and returns the empty frame whose column headers are exactly the requested
  columns.
\<close>

theorem reader_failure_gives_empty_frame:
  assumes "blob_data = None \<or>
           (\<exists>e. read_body blob_data ParquetFile read_columns to_pandas columns = Inl e)"
  shows "read_parquet_subset blob_data ParquetFile read_columns to_pandas columns
           = empty_frame columns \<and>
         map fst (read_parquet_subset blob_data ParquetFile read_columns to_pandas columns)
           = columns \<and>
         (\<forall>col\<in>set (read_parquet_subset blob_data ParquetFile read_columns to_pandas columns).
            snd col = [])"
proof -
  have "read_parquet_subset blob_data ParquetFile read_columns to_pandas columns
          = empty_frame columns"
    using assms by (auto simp: read_parquet_subset_def read_body_def)
  then show ?thesis by (simp add: empty_frame_def comp_def)
qed

text \<open>
  A file that the parquet library refuses to open: the reader returns the two requested
  headers and no rows.
\<close>

theorem reader_failure_gives_empty_frame_witness:
  "read_body (Some ()) (\<lambda>d. Inl ''bad magic'')
     (read_by_name :: int frame \<Rightarrow> string list option \<Rightarrow> string + int frame) Inr [''Id'', ''Name'']
     = Inl ''bad magic'' \<and>
   read_parquet_subset (Some ()) (\<lambda>d. Inl ''bad magic'')
     (read_by_name :: int frame \<Rightarrow> string list option \<Rightarrow> string + int frame) Inr [''Id'', ''Name'']
     = [(''Id'', []), (''Name'', [])]"
proof -
  let ?rd = "read_by_name :: int frame \<Rightarrow> string list option \<Rightarrow> string + int frame"
  have b: "read_body (Some ()) (\<lambda>d. Inl ''bad magic'') ?rd Inr [''Id'', ''Name'']
             = Inl ''bad magic''"
    by (simp add: read_body_def)
  then have h: "Some () = None \<or>
      (\<exists>e. read_body (Some ()) (\<lambda>d. Inl ''bad magic'') ?rd Inr [''Id'', ''Name''] = Inl e)"
    by blast
  from reader_failure_gives_empty_frame [OF h] have
    "read_parquet_subset (Some ()) (\<lambda>d. Inl ''bad magic'') ?rd Inr [''Id'', ''Name'']
       = empty_frame [''Id'', ''Name'']"
    by blast
  with b show ?thesis by (simp add: empty_frame_def)
qed

section \<open>Duplicate column names\<close>

text \<open>
  C7. The source computes the positions of the first occurrence of each column name, but
  passes the names at those positions to the read, not the positions. For the schema
  Id, Name, Id and the wanted columns Id, Name the request is the two names; a read by name
  returns both columns called Id, and the later duplicate stays in the frame the reader
  returns.
\<close>

theorem reader_requests_names_not_positions:
  "unique_indices 0 {} [''Id'', ''Name'', ''Id''] = [0, 1] \<and>
   read_request [''Id'', ''Name''] [''Id'', ''Name'', ''Id''] = Some [''Id'', ''Name''] \<and>
   read_parquet_subset (Some ())
     (\<lambda>d. Inr [(''Id'', [1::int]), (''Name'', [3]), (''Id'', [2])])
     (read_by_name :: int frame \<Rightarrow> string list option \<Rightarrow> unit + int frame) Inr [''Id'', ''Name'']
     = [(''Id'', [1]), (''Id'', [2]), (''Name'', [3])]"
proof (intro conjI)
  show "unique_indices 0 {} [''Id'', ''Name'', ''Id''] = [0, 1]" by code_simp
  show "read_request [''Id'', ''Name''] [''Id'', ''Name'', ''Id''] = Some [''Id'', ''Name'']"
    by code_simp
  show "read_parquet_subset (Some ())
     (\<lambda>d. Inr [(''Id'', [1::int]), (''Name'', [3]), (''Id'', [2])])
     (read_by_name :: int frame \<Rightarrow> string list option \<Rightarrow> unit + int frame) Inr [''Id'', ''Name'']
     = [(''Id'', [1]), (''Id'', [2]), (''Name'', [3])]"
    by code_simp
qed

section \<open>Combined instants\<close>

text \<open>
  C8 (as amended). A missing time-of-day stands for the text 00:00:00, so the instant is the
  date at midnight (given that the library reads 00:00:00 as zero). The text that reaches
  the parser of the time is the time string without its characters other than digits and
  colons, all digits and colons kept in their order. Where the date and the stripped time
  both have a value the instant is their sum, and the addition raises when the sum leaves
  the 64-bit range. A missing or invalid date gives no value and raises nothing. A time
  string that the parser cannot read after the stripping gives no value for the whole
  instant.
\<close>

theorem combine_dt_behaviour:
  "(td ''00:00:00'' = Some 0 \<and> dt x = Some d \<and> in_int64 d \<longrightarrow>
      combine_dt dt td (Some x) None = Inr (Some d)) \<and>
   strip_time s = filter (\<lambda>c. c \<in> set ''0123456789:'') s \<and>
   (dt x = Some d \<and> td (strip_time s) = Some t \<longrightarrow>
      combine_dt dt td (Some x) (Some s)
        = (if in_int64 (d + t) then Inr (Some (d + t)) else Inl OverflowError)) \<and>
   (date = None \<or> (\<exists>y. date = Some y \<and> dt y = None) \<longrightarrow>
      combine_dt dt td date time = Inr None) \<and>
   (td (strip_time s) = None \<longrightarrow> combine_dt dt td date (Some s) = Inr None)"
proof -
  have st: "strip_time ''00:00:00'' = ''00:00:00''"
    by (simp add: strip_time_def is_digit_def)
  have eq: "strip_time s = filter (\<lambda>c. c \<in> set ''0123456789:'') s"
    unfolding strip_time_def is_digit_def by (rule filter_cong) auto
  have 1: "td ''00:00:00'' = Some 0 \<and> dt x = Some d \<and> in_int64 d \<longrightarrow>
      combine_dt dt td (Some x) None = Inr (Some d)"
    by (simp add: combine_dt_def Let_def st)
  have 3: "dt x = Some d \<and> td (strip_time s) = Some t \<longrightarrow>
      combine_dt dt td (Some x) (Some s)
        = (if in_int64 (d + t) then Inr (Some (d + t)) else Inl OverflowError)"
    by (simp add: combine_dt_def Let_def)
  have 4: "date = None \<or> (\<exists>y. date = Some y \<and> dt y = None) \<longrightarrow>
      combine_dt dt td date time = Inr None"
    by (auto simp: combine_dt_def Let_def)
  have 5: "td (strip_time s) = None \<longrightarrow> combine_dt dt td date (Some s) = Inr None"
    by (simp add: combine_dt_def Let_def split: option.splits)
  from 1 eq 3 4 5 show ?thesis by (intro conjI)
qed

text \<open>
  The fifth of January 2024 without a time is that day at midnight; with the time
  \<^verbatim>\<open>10:00:00 h\<close> it is that day at ten; a text that is not a date gives no value.
\<close>

theorem combine_dt_behaviour_witness:
  "sample_to_timedelta ''00:00:00'' = Some 0 \<and>
   sample_to_datetime ''2024-01-05'' = Some 1704412800000000000 \<and>
   in_int64 1704412800000000000 \<and>
   combine_dt sample_to_datetime sample_to_timedelta (Some ''2024-01-05'') None
     = Inr (Some 1704412800000000000) \<and>
   strip_time ''10:00:00 h'' = ''10:00:00'' \<and>
   sample_to_timedelta ''10:00:00'' = Some 36000000000000 \<and>
   combine_dt sample_to_datetime sample_to_timedelta (Some ''2024-01-05'') (Some ''10:00:00 h'')
     = Inr (Some 1704448800000000000) \<and>
   sample_to_datetime ''not a date'' = None \<and>
   combine_dt sample_to_datetime sample_to_timedelta (Some ''not a date'') None = Inr None"
proof -
  have z: "sample_to_timedelta ''00:00:00'' = Some 0" by (simp add: sample_to_timedelta_def)
  have d: "sample_to_datetime ''2024-01-05'' = Some 1704412800000000000"
    by (simp add: sample_to_datetime_def)
  have r: "in_int64 1704412800000000000" by (simp add: in_int64_def)
  have r2: "in_int64 (1704412800000000000 + 36000000000000)" by (simp add: in_int64_def)
  have n: "sample_to_datetime ''not a date'' = None" by (simp add: sample_to_datetime_def)
  have s: "strip_time ''10:00:00 h'' = ''10:00:00''" by (simp add: strip_time_def is_digit_def)
  have t: "sample_to_timedelta ''10:00:00'' = Some 36000000000000"
    by (simp add: sample_to_timedelta_def)
  note a = combine_dt_behaviour [of sample_to_timedelta sample_to_datetime "''2024-01-05''"
      1704412800000000000 "''10:00:00 h''" 36000000000000 "Some ''not a date''" None]
  from a z d r have 1:
    "combine_dt sample_to_datetime sample_to_timedelta (Some ''2024-01-05'') None
       = Inr (Some 1704412800000000000)"
    by blast
  from t s have ts: "sample_to_timedelta (strip_time ''10:00:00 h'') = Some 36000000000000"
    by simp
  from a d ts have
    "combine_dt sample_to_datetime sample_to_timedelta (Some ''2024-01-05'') (Some ''10:00:00 h'')
       = (if in_int64 (1704412800000000000 + 36000000000000)
          then Inr (Some (1704412800000000000 + 36000000000000)) else Inl OverflowError)"
    by blast
  with r2 have 2:
    "combine_dt sample_to_datetime sample_to_timedelta (Some ''2024-01-05'') (Some ''10:00:00 h'')
       = Inr (Some 1704448800000000000)"
    by simp
  from a n have 3:
    "combine_dt sample_to_datetime sample_to_timedelta (Some ''not a date'') None = Inr None"
    by blast
  from z d r 1 s t 2 n 3 show ?thesis by (intro conjI)
qed

text \<open>
  A garbled time-of-day does not default to midnight: with a valid date and the time text
  \<^verbatim>\<open>abc\<close>, nothing is left after the stripping, the parser has no value for the empty
  string, and the combined instant has no value.
\<close>

theorem combine_dt_garbled_time_is_no_value:
  "sample_to_datetime ''2024-01-05'' = Some 1704412800000000000 \<and>
   strip_time ''abc'' = '''' \<and>
   combine_dt sample_to_datetime sample_to_timedelta (Some ''2024-01-05'') (Some ''abc'')
     = Inr None"
  by (simp add: combine_dt_def strip_time_def is_digit_def sample_to_datetime_def
      sample_to_timedelta_def)

end
